theory Spec2Isabelle
  imports Complex_Main "HOL-Library.Char_ord" "HOL-Library.List_Lexorder" "HOL-Library.Multiset"
    "HOL-Library.Log_Nat"
begin

section \<open>Python values, errors and strings\<close>

text \<open>
  The resume processor (\<^verbatim>\<open>ResumeProcessorFunction/app.py\<close>) and the query API
  (\<^verbatim>\<open>src/api/app.py\<close>) are embedded as HOL functions. A Python \<^verbatim>\<open>str\<close> is a
  \<^typ>\<open>string\<close> whose characters stand for the code points below 256; a Python
  \<^verbatim>\<open>float\<close> is an exact rational, and where the code rounds a score to three places
  the double nearest to that rational is rounded, as Python does;
  every exception the code can raise is a value of \<open>py_error\<close>.
\<close>

datatype py_error =
    ZeroDivisionError | ValueError | IndexError | TypeError | AttributeError
  | JSONDecodeError | RuntimeError | RecursionError | ExtractionError

datatype pyval =
    PNone | PBool bool | PNum rat | PStr string | PList "pyval list"
  | PDict "(string \<times> pyval) list"

text \<open>\<^verbatim>\<open>str.isspace\<close>, which \<^verbatim>\<open>str.strip()\<close> and the regex class \<^verbatim>\<open>\s\<close> use.\<close>

definition is_space :: "char \<Rightarrow> bool" where
  "is_space c =
     (let n = (of_char c :: nat)
      in (9 \<le> n \<and> n \<le> 13) \<or> (28 \<le> n \<and> n \<le> 32) \<or> n = 133 \<or> n = 160)"

text \<open>\<^verbatim>\<open>str.lower()\<close>: A-Z and the upper-case letters of Latin-1 move up by 32.\<close>

definition lower_char :: "char \<Rightarrow> char" where
  "lower_char c =
     (let n = (of_char c :: nat)
      in if (65 \<le> n \<and> n \<le> 90) \<or> (192 \<le> n \<and> n \<le> 214) \<or> (216 \<le> n \<and> n \<le> 222)
         then char_of (n + 32) else c)"

definition lower :: "string \<Rightarrow> string" where
  "lower s = map lower_char s"

section \<open>Matching engine\<close>

text \<open>A job item as the table scan returns it; \<open>None\<close> is a missing key.\<close>

record job =
  jobId :: "string option"
  required_skills :: "pyval list option"

text \<open>\<^verbatim>\<open>x / y\<close> on two \<^verbatim>\<open>int\<close>s.\<close>

definition py_truediv :: "nat \<Rightarrow> nat \<Rightarrow> py_error + rat" where
  "py_truediv x y = (if y = 0 then Inl ZeroDivisionError else Inr (of_nat x / of_nat y))"

definition jaccard_similarity :: "string set \<Rightarrow> string set \<Rightarrow> py_error + rat" where
  "jaccard_similarity a b =
     (if a = {} \<and> b = {} then Inr 0
      else let intersection = card (a \<inter> b); union = card (a \<union> b)
           in if union \<noteq> 0 then py_truediv intersection union else Inr 0)"

text \<open>Rounding to the nearest integer, a tie to the even one.\<close>

definition round_half_even :: "rat \<Rightarrow> int" where
  "round_half_even x =
     (let f = \<lfloor>x\<rfloor>; d = x - of_int f
      in if d < 1 / 2 then f else if 1 / 2 < d then f + 1 else if even f then f else f + 1)"

text \<open>
  The double that \<^verbatim>\<open>intersection / union\<close> yields: the quotient rounded to 53
  significant bits, a tie to the even one. \<open>exponent x\<close> is the \<open>e\<close> with
  \<open>2 powi e \<le> x < 2 powi (e + 1)\<close>. Overflow and subnormal numbers are left out: a
  quotient of the sizes of two sets is far from both.
\<close>

definition exponent :: "rat \<Rightarrow> int" where
  "exponent x =
     (let (p, q) = quotient_of x; d = bitlen p - bitlen q
      in if 2 powi d \<le> x then d else d - 1)"

definition binary64 :: "rat \<Rightarrow> rat" where
  "binary64 x =
     (if x = 0 then 0
      else let k = exponent \<bar>x\<bar> - 52;
               m = round_half_even (\<bar>x\<bar> / 2 powi k)
           in sgn x * of_int m * 2 powi k)"

text \<open>
  \<^verbatim>\<open>round(score, 3)\<close>: the exact value of the double is rounded to the nearest multiple
  of 1/1000, a tie (which needs a double that is exactly half way) to the even one. The
  result is given as that decimal; the double returned is the one nearest to it.
\<close>

definition round3 :: "rat \<Rightarrow> rat" where
  "round3 x = of_int (round_half_even (binary64 x * 1000)) / 1000"

text \<open>
  \<^verbatim>\<open>list.sort(key=..., reverse=True)\<close>: the list is reversed, sorted by a stable
  ascending sort and reversed again.
\<close>

definition sort_reverse :: "('a \<Rightarrow> rat) \<Rightarrow> 'a list \<Rightarrow> 'a list" where
  "sort_reverse key xs = rev (sort_key key (rev xs))"

text \<open>
  \<^verbatim>\<open>set(s.lower() for s in job.get("required_skills", []) if isinstance(s, str))\<close>
\<close>

fun str_items :: "pyval list \<Rightarrow> string list" where
  "str_items [] = []"
| "str_items (PStr s # xs) = s # str_items xs"
| "str_items (_ # xs) = str_items xs"

definition required_set :: "job \<Rightarrow> string set" where
  "required_set j =
     set (map lower (str_items (case required_skills j of None \<Rightarrow> [] | Some xs \<Rightarrow> xs)))"

text \<open>
  The body of the loop of \<^verbatim>\<open>compute_matches\<close> for one job: \<open>Inr None\<close> is
  \<^verbatim>\<open>continue\<close> or a score that is not positive, \<open>Inr (Some (job_id, score))\<close> is the
  pair appended to \<^verbatim>\<open>results\<close>.
\<close>

definition score_job :: "string set \<Rightarrow> job \<Rightarrow> py_error + (string \<times> rat) option" where
  "score_job candidate_skills j =
     (case jobId j of
        None \<Rightarrow> Inr None
      | Some job_id \<Rightarrow>
          if job_id = [] \<or> required_set j = {} then Inr None
          else (case jaccard_similarity candidate_skills (required_set j) of
                  Inl e \<Rightarrow> Inl e
                | Inr score \<Rightarrow> if 0 < score then Inr (Some (job_id, score)) else Inr None))"

fun scan_jobs ::
  "string set \<Rightarrow> job list \<Rightarrow> (string \<times> rat) list \<Rightarrow> py_error + (string \<times> rat) list" where
  "scan_jobs candidate_skills [] results = Inr results"
| "scan_jobs candidate_skills (j # js) results =
     (case score_job candidate_skills j of
        Inl e \<Rightarrow> Inl e
      | Inr None \<Rightarrow> scan_jobs candidate_skills js results
      | Inr (Some entry) \<Rightarrow> scan_jobs candidate_skills js (results @ [entry]))"

text \<open>The candidate is given by its \<^verbatim>\<open>skills\<close> list.\<close>

definition compute_matches ::
  "string list \<Rightarrow> job list \<Rightarrow> py_error + (string \<times> rat) list" where
  "compute_matches skills_of_candidate jobs =
     (let candidate_skills = set (map lower skills_of_candidate)
      in case scan_jobs candidate_skills jobs [] of
           Inl e \<Rightarrow> Inl e
         | Inr results \<Rightarrow>
             (let top = take 10 (sort_reverse snd results)
              in Inr (map (\<lambda>(jid, score). (jid, round3 score)) top)))"

text \<open>The pairs one job adds to \<^verbatim>\<open>results\<close>: none or one.\<close>

definition entries_of :: "string set \<Rightarrow> job \<Rightarrow> (string \<times> rat) list" where
  "entries_of candidate_skills j =
     (case score_job candidate_skills j of Inr (Some entry) \<Rightarrow> [entry] | _ \<Rightarrow> [])"

text \<open>
  Example inputs: required skills of 2001 and of 80 distinct strings, and a small job
  table.
\<close>

definition wide_skills :: "pyval list" where
  "wide_skills = map (\<lambda>n. PStr (replicate n (CHR ''a''))) [1..<2002]"

definition eighty_skills :: "pyval list" where
  "eighty_skills =
     map (\<lambda>n. PStr [char_of (48 + n div 10), char_of (48 + n mod 10)]) [0..<80]"

definition demo_jobs :: "job list" where
  "demo_jobs =
     [\<lparr>jobId = Some ''j1'', required_skills = Some [PStr ''Python'', PStr ''java'']\<rparr>,
      \<lparr>jobId = Some ''j2'', required_skills = Some [PStr ''python'', PStr ''AWS'']\<rparr>,
      \<lparr>jobId = Some ''j3'', required_skills = Some [PStr ''aws'', PStr ''docker'', PNum 3]\<rparr>,
      \<lparr>jobId = None, required_skills = Some [PStr ''python'']\<rparr>,
      \<lparr>jobId = Some ''j5'', required_skills = None\<rparr>,
      \<lparr>jobId = Some ''j6'', required_skills = Some [PStr ''sql'']\<rparr>]"

section \<open>Profile parser\<close>

text \<open>
  \<^verbatim>\<open>str.splitlines()\<close>: a line ends at LF, CR, CR LF, VT, FF, FS, GS, RS or NEL; the
  line boundaries are dropped and a boundary at the end of the text opens no further line.
\<close>

definition is_linebreak :: "char \<Rightarrow> bool" where
  "is_linebreak c =
     (let n = (of_char c :: nat) in (10 \<le> n \<and> n \<le> 13) \<or> (28 \<le> n \<and> n \<le> 30) \<or> n = 133)"

fun splitlines_from :: "string \<Rightarrow> string \<Rightarrow> string list" where
  "splitlines_from line [] = (if line = [] then [] else [line])"
| "splitlines_from line (c # cs) =
     (if c = CHR 0x0D \<and> cs \<noteq> [] \<and> hd cs = CHR 0x0A then line # splitlines_from [] (tl cs)
      else if is_linebreak c then line # splitlines_from [] cs
      else splitlines_from (line @ [c]) cs)"

definition splitlines :: "string \<Rightarrow> string list" where
  "splitlines s = splitlines_from [] s"

text \<open>\<^verbatim>\<open>str.strip()\<close> removes the white space at both ends.\<close>

definition strip :: "string \<Rightarrow> string" where
  "strip s = rev (dropWhile is_space (rev (dropWhile is_space s)))"

text \<open>\<^verbatim>\<open>s.startswith(p)\<close>, and \<^verbatim>\<open>sub in s\<close> on strings.\<close>

fun startswith :: "string \<Rightarrow> string \<Rightarrow> bool" where
  "startswith s [] = True"
| "startswith [] (p # ps) = False"
| "startswith (c # cs) (p # ps) = (c = p \<and> startswith cs ps)"

fun contains :: "string \<Rightarrow> string \<Rightarrow> bool" where
  "contains sub [] = (sub = [])"
| "contains sub (c # cs) = (startswith (c # cs) sub \<or> contains sub cs)"

text \<open>The keyword set, in the order of the source; only its members matter.\<close>

definition SKILL_KEYWORDS :: "string list" where
  "SKILL_KEYWORDS =
     [''python'', ''java'', ''javascript'', ''typescript'', ''react'', ''node'', ''node.js'',
      ''aws'', ''lambda'', ''dynamodb'', ''s3'', ''kubernetes'', ''docker'', ''sql'', ''nosql'',
      ''postgres'', ''mysql'', ''mongodb'', ''terraform'', ''jenkins'', ''git'', ''rest'',
      ''api'', ''machine learning'', ''data science'', ''pandas'', ''numpy'']"

definition extract_skills :: "string \<Rightarrow> string set" where
  "extract_skills lower_text =
     fold (\<lambda>skill found. if contains skill lower_text then insert skill found else found)
       SKILL_KEYWORDS {}"

definition title_keywords :: "string list" where
  "title_keywords = [''engineer'', ''developer'', ''manager'', ''lead'', ''architect'', ''analyst'']"

definition extract_titles :: "string \<Rightarrow> string set" where
  "extract_titles lower_text =
     fold (\<lambda>line titles.
             if list_ex (\<lambda>word. contains word line) title_keywords
             then insert (strip line) titles else titles)
       (splitlines lower_text) {}"

text \<open>
  The regular expressions of the source, and the search of \<^verbatim>\<open>re\<close>: a backtracking
  matcher. \<open>Str w\<close> is a literal, \<open>Rep p n\<close> a character class repeated greedily at
  least \<open>n\<close> times, \<open>Opt r\<close> a greedy optional part, \<open>Cat\<close> a sequence.
  \<open>rx_match r s\<close> lists what is left of \<open>s\<close> after each way of matching \<open>r\<close> at its
  start, in the order in which backtracking tries them; the match the engine reports is
  the first one.
\<close>

datatype rx = Str string | Rep "char \<Rightarrow> bool" nat | Opt rx | Cat rx rx

fun rx_match :: "rx \<Rightarrow> string \<Rightarrow> string list" where
  "rx_match (Str w) s = (if startswith s w then [drop (length w) s] else [])"
| "rx_match (Rep p n) s = map (\<lambda>k. drop k s) (rev [n ..< Suc (length (takeWhile p s))])"
| "rx_match (Opt r) s = rx_match r s @ [s]"
| "rx_match (Cat r1 r2) s = concat (map (rx_match r2) (rx_match r1 s))"

text \<open>\<^verbatim>\<open>re.search(r, s).group(0)\<close>: the match at the leftmost position that has one.\<close>

fun re_search :: "rx \<Rightarrow> string \<Rightarrow> string option" where
  "re_search r [] = (case rx_match r [] of [] \<Rightarrow> None | rest # _ \<Rightarrow> Some [])"
| "re_search r (c # cs) =
     (case rx_match r (c # cs) of
        [] \<Rightarrow> re_search r cs
      | rest # _ \<Rightarrow> Some (take (length (c # cs) - length rest) (c # cs)))"

text \<open>
  A pattern \<^verbatim>\<open>(g)t\<close> with one capture group at its start: \<open>rx_match_group\<close> gives the
  text of the group and what follows the whole match; \<^verbatim>\<open>re.findall\<close> collects the group
  of each match, scanning on from the end of the last one.
\<close>

definition rx_match_group :: "rx \<Rightarrow> rx \<Rightarrow> string \<Rightarrow> (string \<times> string) option" where
  "rx_match_group g t s =
     (case filter (\<lambda>mid. rx_match t mid \<noteq> []) (rx_match g s) of
        [] \<Rightarrow> None
      | mid # _ \<Rightarrow> Some (take (length s - length mid) s, hd (rx_match t mid)))"

function re_findall :: "rx \<Rightarrow> rx \<Rightarrow> string \<Rightarrow> string list" where
  "re_findall g t s =
     (case rx_match_group g t s of
        None \<Rightarrow> (case s of [] \<Rightarrow> [] | c # cs \<Rightarrow> re_findall g t cs)
      | Some (grp, rest) \<Rightarrow>
          grp # (if s = [] then []
                 else if length rest < length s then re_findall g t rest
                 else re_findall g t (tl s)))"
  by pat_completeness auto
termination
  by (relation "measure (\<lambda>(g, t, s). length s)") auto

text \<open>The character classes \<^verbatim>\<open>\d\<close>, \<^verbatim>\<open>[A-Za-z]\<close>, \<^verbatim>\<open>[A-Za-z0-9._%+-]\<close> and \<^verbatim>\<open>[A-Za-z0-9.-]\<close>.\<close>

definition is_digit :: "char \<Rightarrow> bool" where
  "is_digit c = (CHR ''0'' \<le> c \<and> c \<le> CHR ''9'')"

definition is_alpha :: "char \<Rightarrow> bool" where
  "is_alpha c = ((CHR ''A'' \<le> c \<and> c \<le> CHR ''Z'') \<or> (CHR ''a'' \<le> c \<and> c \<le> CHR ''z''))"

definition is_local :: "char \<Rightarrow> bool" where
  "is_local c = (is_alpha c \<or> is_digit c \<or> c \<in> set ''._%+-'')"

definition is_domain :: "char \<Rightarrow> bool" where
  "is_domain c = (is_alpha c \<or> is_digit c \<or> c \<in> set ''.-'')"

text \<open>\<^verbatim>\<open>[A-Za-z0-9._%+-]+@[A-Za-z0-9.-]+\.[A-Za-z]{2,}\<close>\<close>

definition email_pattern :: rx where
  "email_pattern =
     Cat (Rep is_local 1) (Cat (Str ''@'') (Cat (Rep is_domain 1) (Cat (Str ''.'') (Rep is_alpha 2))))"

definition extract_email :: "string \<Rightarrow> string" where
  "extract_email text = (case re_search email_pattern text of Some m \<Rightarrow> m | None \<Rightarrow> [])"

text \<open>\<^verbatim>\<open>(\d+(?:\.\d+)?)\s*\+?\s*years?\<close>: the group, and the rest of the pattern.\<close>

definition number_group :: rx where
  "number_group = Cat (Rep is_digit 1) (Opt (Cat (Str ''.'') (Rep is_digit 1)))"

definition years_tail :: rx where
  "years_tail =
     Cat (Rep is_space 0) (Cat (Opt (Str ''+'')) (Cat (Rep is_space 0)
       (Cat (Str ''year'') (Opt (Str ''s'')))))"

text \<open>
  \<^verbatim>\<open>float(m)\<close>, given a value on the strings \<^verbatim>\<open>digits\<close> and \<^verbatim>\<open>digits.digits\<close>;
  on every other string the model raises, which is more often than Python does.
\<close>

definition digits_val :: "string \<Rightarrow> nat" where
  "digits_val ds = foldl (\<lambda>n d. 10 * n + (of_char d - 48)) 0 ds"

definition py_float :: "string \<Rightarrow> py_error + rat" where
  "py_float s =
     (let ip = takeWhile is_digit s; r = dropWhile is_digit s
      in if ip = [] then Inl ValueError
         else if r = [] then Inr (rat_of_nat (digits_val ip))
         else if hd r = CHR ''.'' \<and> tl r \<noteq> [] \<and> list_all is_digit (tl r)
           then Inr (rat_of_nat (digits_val ip) + rat_of_nat (digits_val (tl r)) / 10 ^ length (tl r))
         else Inl ValueError)"

text \<open>\<^verbatim>\<open>[float(m) for m in matches]\<close> and \<^verbatim>\<open>max(years)\<close>, which raises on an empty list.\<close>

fun floats :: "string list \<Rightarrow> py_error + rat list" where
  "floats [] = Inr []"
| "floats (m # ms) =
     (case py_float m of
        Inl e \<Rightarrow> Inl e
      | Inr y \<Rightarrow> (case floats ms of Inl e \<Rightarrow> Inl e | Inr ys \<Rightarrow> Inr (y # ys)))"

definition py_max :: "rat list \<Rightarrow> py_error + rat" where
  "py_max xs = (case xs of [] \<Rightarrow> Inl ValueError | x # ys \<Rightarrow> Inr (fold max ys x))"

definition extract_experience_years :: "string \<Rightarrow> py_error + rat" where
  "extract_experience_years lower_text =
     (let matches = re_findall number_group years_tail lower_text
      in case floats matches of
           Inl e \<Rightarrow> Inl e
         | Inr years \<Rightarrow> if years \<noteq> [] then py_max years else Inr 0)"

record profile =
  name :: string
  email :: string
  total_experience_years :: rat
  skills :: "string list"
  titles :: "string list"
  raw_text :: string

text \<open>\<^verbatim>\<open>lines[0]\<close>\<close>

definition py_index0 :: "'a list \<Rightarrow> py_error + 'a" where
  "py_index0 xs = (case xs of [] \<Rightarrow> Inl IndexError | x # _ \<Rightarrow> Inr x)"

definition parse_candidate_profile :: "string \<Rightarrow> py_error + profile" where
  "parse_candidate_profile text =
     (let lines = filter (\<lambda>ln. ln \<noteq> []) (map strip (splitlines text));
          lower_text = lower text
      in case (if lines \<noteq> [] then py_index0 lines else Inr ''Unknown'') of
           Inl e \<Rightarrow> Inl e
         | Inr nm \<Rightarrow>
             (case extract_experience_years lower_text of
                Inl e \<Rightarrow> Inl e
              | Inr experience_years \<Rightarrow>
                  Inr \<lparr>name = nm,
                       email = extract_email text,
                       total_experience_years = experience_years,
                       skills = sorted_list_of_set (extract_skills lower_text),
                       titles = sorted_list_of_set (extract_titles lower_text),
                       raw_text = take 5000 text\<rparr>))"

section \<open>Ingestion orchestrator\<close>

text \<open>
  Truth value of a Python value, and \<^verbatim>\<open>obj.get(k, default)\<close>, which exists on a
  \<^verbatim>\<open>dict\<close> only.
\<close>

definition truthy :: "pyval \<Rightarrow> bool" where
  "truthy v =
     (case v of
        PNone \<Rightarrow> False | PBool b \<Rightarrow> b | PNum n \<Rightarrow> n \<noteq> 0 | PStr s \<Rightarrow> s \<noteq> []
      | PList xs \<Rightarrow> xs \<noteq> [] | PDict d \<Rightarrow> d \<noteq> [])"

definition py_get :: "pyval \<Rightarrow> string \<Rightarrow> pyval \<Rightarrow> py_error + pyval" where
  "py_get obj k dflt =
     (case obj of
        PDict d \<Rightarrow> Inr (case map_of d k of None \<Rightarrow> dflt | Some v \<Rightarrow> v)
      | _ \<Rightarrow> Inl AttributeError)"


record candidate_item =
  item_profile :: profile
  candidateId :: string
  sourceObjectKey :: pyval
  matches :: "(string \<times> rat) list"












section \<open>Query API\<close>

text \<open>
  \<^verbatim>\<open>str.upper()\<close>, modelled on the ASCII letters, which is all that the comparison of
  the method with \<^verbatim>\<open>GET\<close> and \<^verbatim>\<open>POST\<close> needs: of the other code points below 256 only
  the sharp s gives ASCII letters, two of them, and neither word has a double letter.
\<close>

definition upper_char :: "char \<Rightarrow> char" where
  "upper_char c =
     (let n = (of_char c :: nat) in if 97 \<le> n \<and> n \<le> 122 then char_of (n - 32) else c)"

definition upper :: "string \<Rightarrow> string" where
  "upper s = map upper_char s"

text \<open>\<^verbatim>\<open>s.split(sep)\<close> for a one-character separator.\<close>

fun split_from :: "char \<Rightarrow> string \<Rightarrow> string \<Rightarrow> string list" where
  "split_from sep part [] = [part]"
| "split_from sep part (c # cs) =
     (if c = sep then part # split_from sep [] cs else split_from sep (part @ [c]) cs)"

definition split :: "string \<Rightarrow> char \<Rightarrow> string list" where
  "split s sep = split_from sep [] s"

text \<open>
  The API Gateway proxy event (\<open>None\<close> is an absent or null entry), the parameters of
  \<^verbatim>\<open>src/api/app.py\<close> and the two tables as lists of items. A response carries its body
  before \<^verbatim>\<open>json.dumps\<close>; the names of this module carry the prefix \<open>api_\<close> where the
  processor has the same name, so the two \<^verbatim>\<open>lambda_handler\<close>s are
  \<open>processor_lambda_handler\<close> and \<open>api_lambda_handler\<close>. The helpers \<^verbatim>\<open>_parse_body\<close> and
  \<^verbatim>\<open>_response\<close> are \<open>parse_body\<close> and \<open>response'\<close>.
\<close>

record api_event =
  path :: "string option"
  resource :: "string option"
  httpMethod :: "string option"
  request_body :: "string option"

record api_env =
  api_tables_configured :: bool
  api_json_loads :: "string \<Rightarrow> py_error + pyval"
  api_uuid4 :: "nat \<Rightarrow> string"

type_synonym item = "(string \<times> pyval) list"

record api_state =
  api_job_table :: "item list"
  api_candidate_table :: "item list"
  api_uuid_calls :: nat

datatype response_body =
    Message string | InternalError py_error | Items "item list" | Item item

record api_response =
  api_statusCode :: nat
  api_headers :: "(string \<times> string) list"
  api_body :: response_body

definition response' :: "nat \<Rightarrow> response_body \<Rightarrow> api_response" where
  "response' status_code b =
     \<lparr>api_statusCode = status_code,
      api_headers = [(''Content-Type'', ''application/json''), (''Access-Control-Allow-Origin'', ''*'')],
      api_body = b\<rparr>"

definition parse_body :: "api_env \<Rightarrow> string option \<Rightarrow> py_error + pyval" where
  "parse_body env body_str =
     (case body_str of
        None \<Rightarrow> Inr (PDict [])
      | Some s \<Rightarrow>
          if s = [] then Inr (PDict [])
          else (case api_json_loads env s of
                  Inl JSONDecodeError \<Rightarrow> Inr (PDict [])
                | Inl e \<Rightarrow> Inl e
                | Inr v \<Rightarrow> Inr v))"

definition list_jobs :: "api_state \<Rightarrow> api_response" where
  "list_jobs st = response' 200 (Items (api_job_table st))"

definition create_job ::
  "api_env \<Rightarrow> pyval \<Rightarrow> api_state \<Rightarrow> py_error + (api_response \<times> api_state)" where
  "create_job env b st =
     (case py_get b ''title'' PNone of
        Inl e \<Rightarrow> Inl e
      | Inr title \<Rightarrow>
          (case py_get b ''description'' (PStr []) of
             Inl e \<Rightarrow> Inl e
           | Inr description \<Rightarrow>
               (case py_get b ''required_skills'' PNone of
                  Inl e \<Rightarrow> Inl e
                | Inr rs \<Rightarrow>
                    (let required = (if truthy rs then rs else PList [])
                     in if \<not> truthy title
                        then Inr (response' 400 (Message ''title is required''), st)
                        else (let job_id = api_uuid4 env (api_uuid_calls st);
                                  item = [(''jobId'', PStr job_id), (''title'', title),
                                          (''description'', description),
                                          (''required_skills'', required)]
                              in Inr (response' 201 (Item item),
                                      st\<lparr>api_job_table := api_job_table st @ [item],
                                         api_uuid_calls := Suc (api_uuid_calls st)\<rparr>))))))"

definition item_get :: "item \<Rightarrow> string \<Rightarrow> pyval \<Rightarrow> pyval" where
  "item_get it k dflt = (case map_of it k of None \<Rightarrow> dflt | Some v \<Rightarrow> v)"

definition list_candidates :: "api_state \<Rightarrow> api_response" where
  "list_candidates st =
     response' 200 (Items (map (\<lambda>it.
        [(''candidateId'', item_get it ''candidateId'' PNone),
         (''name'', item_get it ''name'' PNone),
         (''email'', item_get it ''email'' PNone),
         (''total_experience_years'', item_get it ''total_experience_years'' PNone),
         (''skills'', item_get it ''skills'' (PList [])),
         (''matches'', item_get it ''matches'' (PList []))]) (api_candidate_table st)))"

definition get_item :: "api_state \<Rightarrow> string \<Rightarrow> item option" where
  "get_item st candidate_id =
     find (\<lambda>it. item_get it ''candidateId'' PNone = PStr candidate_id) (api_candidate_table st)"

definition get_candidate :: "api_state \<Rightarrow> string \<Rightarrow> api_response" where
  "get_candidate st candidate_id =
     (case get_item st candidate_id of
        None \<Rightarrow> response' 404 (Message ''Candidate not found'')
      | Some item \<Rightarrow> if item = [] then response' 404 (Message ''Candidate not found'')
                     else response' 200 (Item item))"

definition get_candidate_report :: "api_state \<Rightarrow> string \<Rightarrow> api_response" where
  "get_candidate_report st candidate_id =
     (case get_item st candidate_id of
        None \<Rightarrow> response' 404 (Message ''Candidate not found'')
      | Some item \<Rightarrow> if item = [] then response' 404 (Message ''Candidate not found'')
                     else \<lparr>api_statusCode = 200,
                           api_headers =
                             [(''Content-Type'', ''application/json''),
                              (''Content-Disposition'',
                               ''attachment; filename='' @ [CHR 0x22] @ ''candidate-'' @ candidate_id
                                 @ ''.json'' @ [CHR 0x22]),
                              (''Access-Control-Allow-Origin'', ''*'')],
                           api_body = Item item\<rparr>)"

text \<open>
  The \<^verbatim>\<open>try\<close> block of the handler; an exception raised in it is the value \<open>Inl\<close>, which
  the handler turns into status 500.
\<close>

definition route ::
  "api_env \<Rightarrow> string \<Rightarrow> string \<Rightarrow> string option \<Rightarrow> api_state
     \<Rightarrow> py_error + (api_response \<times> api_state)" where
  "route env pth http_method body_str st =
     (if startswith pth ''/jobs'' \<and> http_method = ''GET'' then Inr (list_jobs st, st)
      else if startswith pth ''/jobs'' \<and> http_method = ''POST''
        then (case parse_body env body_str of Inl e \<Rightarrow> Inl e | Inr b \<Rightarrow> create_job env b st)
      else if http_method = ''GET''
        then (let parts = filter (\<lambda>p. p \<noteq> []) (split pth (CHR ''/''))
              in if parts \<noteq> [] \<and> last parts = ''candidates'' \<and> length parts \<le> 2
                 then Inr (list_candidates st, st)
                 else if ''candidates'' \<in> set parts
                   then (let rest = tl (dropWhile (\<lambda>p. p \<noteq> ''candidates'') parts)
                         in if length rest = 1 then Inr (get_candidate st (hd rest), st)
                            else if length rest = 2 \<and> rest ! 1 = ''report''
                              then Inr (get_candidate_report st (hd rest), st)
                            else Inr (response' 404 (Message ''Not found''), st))
                   else Inr (response' 404 (Message ''Not found''), st))
      else Inr (response' 404 (Message ''Not found''), st))"

definition api_lambda_handler :: "api_env \<Rightarrow> api_event \<Rightarrow> api_state \<Rightarrow> api_response \<times> api_state" where
  "api_lambda_handler env event st =
     (if \<not> api_tables_configured env then (response' 500 (Message ''Tables not configured''), st)
      else
        (let event_path = (case path event of None \<Rightarrow> [] | Some p \<Rightarrow> p);
             pth = (if event_path \<noteq> [] then event_path
                    else (case resource event of None \<Rightarrow> [] | Some r \<Rightarrow> r));
             http_method = upper (case httpMethod event of None \<Rightarrow> ''GET'' | Some m \<Rightarrow> m)
         in case route env pth http_method (request_body event) st of
              Inl e \<Rightarrow> (response' 500 (InternalError e), st)
            | Inr r \<Rightarrow> r))"

text \<open>
  Example parameters for the two handlers. Their \<^verbatim>\<open>json.loads\<close> is given on a few
  bodies as the library behaves on them: \<^verbatim>\<open>null\<close> and \<^verbatim>\<open>[]\<close> are valid documents that are
  not objects, and 100000 opening brackets, which are not a valid document, exceed the
  recursion limit of the decoder, which raises \<^verbatim>\<open>RecursionError\<close> on them.
\<close>

definition deep_brackets :: string where
  "deep_brackets = replicate 100000 (CHR ''['')"

definition demo_api_env :: api_env where
  "demo_api_env =
     \<lparr>api_tables_configured = True,
      api_json_loads = (\<lambda>s. if s = ''{}'' then Inr (PDict [])
                            else if s = deep_brackets then Inl RecursionError
                            else Inl JSONDecodeError),
      api_uuid4 = (\<lambda>n. ''job-'' @ replicate n (CHR ''i''))\<rparr>"


section \<open>Specification functions\<close>

text \<open>
  The strings a regular expression denotes, and an occurrence in \<open>s\<close> of the pattern
  \<^verbatim>\<open>(g)t\<close> whose group is \<open>m\<close>; the search functions above are related to them below.
\<close>

fun lang :: "rx \<Rightarrow> string set" where
  "lang (Str w) = {w}"
| "lang (Rep p n) = {w. n \<le> length w \<and> list_all p w}"
| "lang (Opt r) = insert [] (lang r)"
| "lang (Cat r1 r2) = {u @ v | u v. u \<in> lang r1 \<and> v \<in> lang r2}"

definition occurs :: "rx \<Rightarrow> rx \<Rightarrow> string \<Rightarrow> string \<Rightarrow> bool" where
  "occurs g t s m \<longleftrightarrow> m \<in> lang g \<and> (\<exists>pre v post. v \<in> lang t \<and> s = pre @ m @ v @ post)"

text \<open>
  The rest of the experience pattern as the specification words it, after the number: an
  optional \<^verbatim>\<open>+\<close>, optional white space, \<^verbatim>\<open>year\<close> or \<^verbatim>\<open>years\<close>.
\<close>

definition years_tail_spec :: rx where
  "years_tail_spec =
     Cat (Opt (Str ''+'')) (Cat (Rep is_space 0) (Cat (Str ''year'') (Opt (Str ''s''))))"

declare re_findall.simps [simp del]

section \<open>Jaccard similarity\<close>

lemma card_Un_pos: "finite a \<Longrightarrow> finite b \<Longrightarrow> a \<noteq> {} \<or> b \<noteq> {} \<Longrightarrow> 0 < card (a \<union> b)"
  by (simp add: card_gt_0_iff)

text \<open>
  C5. On finite sets the similarity is the size of the intersection over the size of
  the union, it is 0 when both sets are empty, and the division never fails: the
  union of two sets that are not both empty has at least one element.
\<close>

theorem jaccard_similarity_ratio:
  assumes "finite a" and "finite b"
  shows "jaccard_similarity a b =
           Inr (if a = {} \<and> b = {} then 0
                else rat_of_nat (card (a \<inter> b)) / rat_of_nat (card (a \<union> b)))
         \<and> (a \<noteq> {} \<or> b \<noteq> {} \<longrightarrow> card (a \<union> b) \<noteq> 0)
         \<and> jaccard_similarity a b \<noteq> Inl ZeroDivisionError"
proof -
  have pos: "a \<noteq> {} \<or> b \<noteq> {} \<Longrightarrow> card (a \<union> b) \<noteq> 0"
    using card_Un_pos [OF assms] by auto
  show ?thesis
  proof (cases "a = {} \<and> b = {}")
    case True
    then show ?thesis by (simp add: jaccard_similarity_def)
  next
    case False
    with pos have "card (a \<union> b) \<noteq> 0" by blast
    with False show ?thesis
      by (auto simp: jaccard_similarity_def py_truediv_def Let_def)
  qed
qed

theorem jaccard_similarity_ratio_witness:
  "finite {''a'', ''b''} \<and> finite {''b'', ''c''}
   \<and> jaccard_similarity {''a'', ''b''} {''b'', ''c''} = Inr (1 / 3)
   \<and> jaccard_similarity {} {} = Inr 0"
proof -
  have c1: "card ({''a'', ''b''} \<inter> {''b'', ''c''}) = 1"
    by simp
  have c2: "card ({''a'', ''b''} \<union> {''b'', ''c''}) = 3"
    by (simp add: card_insert_if)
  have e: "jaccard_similarity {} {} = Inr 0"
    using jaccard_similarity_ratio [of "{}" "{}"] by simp
  show ?thesis
    using jaccard_similarity_ratio [of "{''a'', ''b''}" "{''b'', ''c''}"] c1 c2 e by simp
qed


section \<open>Ranking of the matches\<close>

lemma finite_required_set: "finite (required_set j)"
  by (simp add: required_set_def)

lemma jaccard_similarity_Inr:
  "finite a \<Longrightarrow> finite b \<Longrightarrow> a \<noteq> {} \<or> b \<noteq> {} \<Longrightarrow>
   jaccard_similarity a b = Inr (rat_of_nat (card (a \<inter> b)) / rat_of_nat (card (a \<union> b)))"
  using card_Un_pos [of a b]
  by (auto simp: jaccard_similarity_def py_truediv_def Let_def)

lemma score_job_no_error: "finite cs \<Longrightarrow> score_job cs j \<noteq> Inl e"
  by (auto simp: score_job_def jaccard_similarity_Inr finite_required_set split: option.splits)

lemma scan_jobs_entries:
  "finite cs \<Longrightarrow> scan_jobs cs jobs results = Inr (results @ concat (map (entries_of cs) jobs))"
proof (induction jobs arbitrary: results)
  case Nil
  then show ?case by simp
next
  case (Cons j js)
  show ?case
  proof (cases "score_job cs j")
    case (Inl e)
    with score_job_no_error [OF Cons.prems] show ?thesis by blast
  next
    case (Inr r)
    then show ?thesis
      using Cons.IH [OF Cons.prems] by (cases r) (simp_all add: entries_of_def)
  qed
qed

lemma sort_reverse_stable:
  "filter (\<lambda>x. key x = k) (sort_reverse key xs) = filter (\<lambda>x. key x = k) xs"
  by (simp add: sort_reverse_def rev_filter [symmetric] sort_key_stable)

lemma mset_sort_reverse: "mset (sort_reverse key xs) = mset xs"
  by (simp add: sort_reverse_def)

lemma sort_reverse_descending: "sorted_wrt (\<lambda>x y. key y \<le> key x) (sort_reverse key xs)"
proof -
  have "sorted (map key (sort_key key (rev xs)))" by simp
  then have "sorted_wrt (\<lambda>x y. key x \<le> key y) (sort_key key (rev xs))"
    by (simp add: sorted_map)
  then show ?thesis
    by (simp add: sort_reverse_def sorted_wrt_rev)
qed

lemma round_half_even_bounds:
  "\<bar>rat_of_int (round_half_even x) - x\<bar> \<le> 1 / 2"
  unfolding round_half_even_def Let_def
  by (auto simp: abs_if; linarith)

lemma round_half_even_mono: "round_half_even x \<le> round_half_even y" if "x \<le> y"
proof -
  have fl: "\<lfloor>x\<rfloor> \<le> \<lfloor>y\<rfloor>" using that by (rule floor_mono)
  have lo: "\<lfloor>y\<rfloor> \<le> round_half_even y"
    by (auto simp: round_half_even_def Let_def)
  have hi: "round_half_even x \<le> \<lfloor>x\<rfloor> + 1"
    by (auto simp: round_half_even_def Let_def)
  show ?thesis
  proof (cases "\<lfloor>x\<rfloor> = \<lfloor>y\<rfloor>")
    case True
    then show ?thesis using that by (auto simp: round_half_even_def Let_def)
  next
    case False
    with fl have "\<lfloor>x\<rfloor> + 1 \<le> \<lfloor>y\<rfloor>" by simp
    with lo hi show ?thesis by linarith
  qed
qed

lemma round_half_even_of_int: "round_half_even (rat_of_int n) = n"
  by (simp add: round_half_even_def)

lemma bitlen_powi:
  assumes "0 < p"
  shows "2 powi (bitlen p - 1) \<le> rat_of_int p" and "rat_of_int p < 2 powi bitlen p"
proof -
  from assms have b: "1 \<le> bitlen p" by (auto simp: bitlen_alt_def)
  from bitlen_bounds [OF assms] have 1: "2 ^ nat (bitlen p - 1) \<le> p" and 2: "p < 2 ^ nat (bitlen p)"
    by simp_all
  from 1 have "rat_of_int (2 ^ nat (bitlen p - 1)) \<le> rat_of_int p" by (simp only: of_int_le_iff)
  then show "2 powi (bitlen p - 1) \<le> rat_of_int p" using b by (simp add: power_int_def)
  from 2 have "rat_of_int p < rat_of_int (2 ^ nat (bitlen p))" by (simp only: of_int_less_iff)
  then show "rat_of_int p < 2 powi bitlen p" using b by (simp add: power_int_def)
qed

lemma exponent_bounds:
  assumes "0 < x"
  shows "2 powi exponent x \<le> x" and "x < 2 powi (exponent x + 1)"
proof -
  obtain p q where pq: "quotient_of x = (p, q)" by (cases "quotient_of x")
  then have q: "0 < q" by (rule quotient_of_denom_pos)
  from pq have x: "x = rat_of_int p / rat_of_int q" by (rule quotient_of_div)
  with assms q have p: "0 < p" by (simp add: zero_less_divide_iff)
  define d where "d = bitlen p - bitlen q"
  have qq: "0 < rat_of_int q" using q by simp
  have "x < 2 powi bitlen p / 2 powi (bitlen q - 1)"
  proof -
    have "x \<le> rat_of_int p / 2 powi (bitlen q - 1)"
      unfolding x using bitlen_powi(1) [OF q] p q by (intro divide_left_mono mult_pos_pos) simp_all
    also have "\<dots> < 2 powi bitlen p / 2 powi (bitlen q - 1)"
      using bitlen_powi(2) [OF p] by (intro divide_strict_right_mono) simp_all
    finally show ?thesis .
  qed
  also have "\<dots> = 2 powi (d + 1)"
  proof -
    have e: "bitlen p - (bitlen q - 1) = d + 1" by (simp add: d_def)
    have "2 powi bitlen p / 2 powi (bitlen q - 1) = (2::rat) powi (bitlen p - (bitlen q - 1))"
      by (simp add: power_int_diff)
    then show ?thesis by (simp only: e)
  qed
  finally have up: "x < 2 powi (d + 1)" .
  have "2 powi (bitlen p - 1) / 2 powi bitlen q < x"
  proof -
    have "2 powi (bitlen p - 1) / 2 powi bitlen q < 2 powi (bitlen p - 1) / rat_of_int q"
      using bitlen_powi(2) [OF q] qq by (intro divide_strict_left_mono mult_pos_pos) simp_all
    also have "\<dots> \<le> x"
      unfolding x using bitlen_powi(1) [OF p] qq by (intro divide_right_mono) simp_all
    finally show ?thesis .
  qed
  moreover have "2 powi (bitlen p - 1) / 2 powi bitlen q = (2::rat) powi (d - 1)"
  proof -
    have e: "bitlen p - 1 - bitlen q = d - 1" by (simp add: d_def)
    have "2 powi (bitlen p - 1) / 2 powi bitlen q = (2::rat) powi (bitlen p - 1 - bitlen q)"
      by (simp add: power_int_diff)
    then show ?thesis by (simp only: e)
  qed
  ultimately have lo: "2 powi (d - 1) < x" by simp
  have e: "exponent x = (if 2 powi d \<le> x then d else d - 1)"
    by (simp add: exponent_def pq d_def)
  show "2 powi exponent x \<le> x" using lo by (simp add: e)
  show "x < 2 powi (exponent x + 1)" using up by (auto simp: e not_le)
qed

lemma exponent_mono:
  assumes "0 < x" "x \<le> y"
  shows "exponent x \<le> exponent y"
proof (rule ccontr)
  assume "\<not> exponent x \<le> exponent y"
  then have "exponent y + 1 \<le> exponent x" by simp
  then have "(2::rat) powi (exponent y + 1) \<le> 2 powi exponent x"
    by (intro power_int_increasing) simp_all
  also have "\<dots> \<le> x" using assms(1) by (rule exponent_bounds)
  finally have "2 powi (exponent y + 1) \<le> y" using assms(2) by simp
  moreover from assms have "y < 2 powi (exponent y + 1)" by (intro exponent_bounds) simp
  ultimately show False by simp
qed

lemma powi_split52: "(2::rat) powi e = rat_of_int (2 ^ 52) * 2 powi (e - 52)"
  using power_int_add [of "2::rat" 52 "e - 52"] by simp

lemma powi_split53: "(2::rat) powi (e + 1) = rat_of_int (2 ^ 53) * 2 powi (e - 52)"
  using power_int_add [of "2::rat" 53 "e - 52"] by (simp add: add.commute)

lemma powi_half: "1 / 2 * (2::rat) powi (e - 52) = 2 powi e / 2 ^ 53"
  using power_int_diff [of "2::rat" e 52] by simp

lemma binary64_pos:
  "0 < x \<Longrightarrow>
     binary64 x = rat_of_int (round_half_even (x / 2 powi (exponent x - 52))) * 2 powi (exponent x - 52)"
  by (simp add: binary64_def Let_def)

lemma binary64_range:
  assumes "0 < x"
  shows "2 powi exponent x \<le> binary64 x" and "binary64 x \<le> 2 powi (exponent x + 1)"
proof -
  let ?k = "exponent x - 52"
  have k: "(0::rat) < 2 powi ?k" by simp
  have "2 powi 52 = 2 powi exponent x / (2::rat) powi ?k"
    by (simp add: power_int_diff [symmetric])
  also have "\<dots> \<le> x / 2 powi ?k"
    using exponent_bounds(1) [OF assms] k by (intro divide_right_mono) simp_all
  finally have "round_half_even (rat_of_int (2 ^ 52)) \<le> round_half_even (x / 2 powi ?k)"
    by (intro round_half_even_mono) (simp add: power_int_def)
  then have lo: "2 ^ 52 \<le> round_half_even (x / 2 powi ?k)"
    by (simp only: round_half_even_of_int)
  have "x / 2 powi ?k \<le> 2 powi (exponent x + 1) / 2 powi ?k"
    using exponent_bounds(2) [OF assms] k by (intro divide_right_mono) simp_all
  also have "\<dots> = 2 powi 53" by (simp add: power_int_diff [symmetric])
  finally have "round_half_even (x / 2 powi ?k) \<le> round_half_even (rat_of_int (2 ^ 53))"
    by (intro round_half_even_mono) (simp add: power_int_def)
  then have hi: "round_half_even (x / 2 powi ?k) \<le> 2 ^ 53"
    by (simp only: round_half_even_of_int)
  have "2 powi exponent x = rat_of_int (2 ^ 52) * 2 powi ?k"
    by (rule powi_split52)
  also have "\<dots> \<le> rat_of_int (round_half_even (x / 2 powi ?k)) * 2 powi ?k"
  proof (rule mult_right_mono)
    show "rat_of_int (2 ^ 52) \<le> rat_of_int (round_half_even (x / 2 powi ?k))"
      using lo by (simp only: of_int_le_iff)
    show "(0::rat) \<le> 2 powi ?k" by simp
  qed
  finally show "2 powi exponent x \<le> binary64 x" by (simp only: binary64_pos [OF assms])
  have "rat_of_int (round_half_even (x / 2 powi ?k)) * 2 powi ?k \<le> rat_of_int (2 ^ 53) * 2 powi ?k"
  proof (rule mult_right_mono)
    show "rat_of_int (round_half_even (x / 2 powi ?k)) \<le> rat_of_int (2 ^ 53)"
      using hi by (simp only: of_int_le_iff)
    show "(0::rat) \<le> 2 powi ?k" by simp
  qed
  also have "\<dots> = 2 powi (exponent x + 1)"
    by (rule powi_split53 [symmetric])
  finally show "binary64 x \<le> 2 powi (exponent x + 1)" by (simp only: binary64_pos [OF assms])
qed

lemma binary64_nonneg: "0 \<le> x \<Longrightarrow> 0 \<le> binary64 x"
proof (cases "x = 0")
  case True
  then show ?thesis by (simp add: binary64_def)
next
  case False
  assume "0 \<le> x"
  with False have "0 < x" by simp
  from binary64_range(1) [OF this] have "2 powi exponent x \<le> binary64 x" .
  moreover have "(0::rat) < 2 powi exponent x" by simp
  ultimately show ?thesis by linarith
qed

lemma binary64_mono:
  assumes "0 \<le> x" "x \<le> y"
  shows "binary64 x \<le> binary64 y"
proof (cases "x = 0")
  case True
  with assms binary64_nonneg [of y] show ?thesis by (simp add: binary64_def)
next
  case False
  with assms have x: "0 < x" and y: "0 < y" by simp_all
  from exponent_mono [OF x assms(2)] have le: "exponent x \<le> exponent y" .
  show ?thesis
  proof (cases "exponent x = exponent y")
    case True
    have "x / 2 powi (exponent y - 52) \<le> y / 2 powi (exponent y - 52)"
      using assms(2) by (intro divide_right_mono) simp_all
    then have "round_half_even (x / 2 powi (exponent y - 52))
                 \<le> round_half_even (y / 2 powi (exponent y - 52))"
      by (rule round_half_even_mono)
    then have "rat_of_int (round_half_even (x / 2 powi (exponent y - 52))) * 2 powi (exponent y - 52)
                 \<le> rat_of_int (round_half_even (y / 2 powi (exponent y - 52))) * 2 powi (exponent y - 52)"
      by (intro mult_right_mono) simp_all
    then show ?thesis by (simp only: binary64_pos [OF x] binary64_pos [OF y] True)
  next
    case False
    with le have "exponent x + 1 \<le> exponent y" by simp
    then have "(2::rat) powi (exponent x + 1) \<le> 2 powi exponent y"
      by (intro power_int_increasing) simp_all
    with binary64_range(2) [OF x] binary64_range(1) [OF y] show ?thesis by linarith
  qed
qed

lemma binary64_close:
  assumes "0 \<le> x"
  shows "\<bar>binary64 x - x\<bar> \<le> x / 2 ^ 53"
proof (cases "x = 0")
  case True
  then show ?thesis by (simp add: binary64_def)
next
  case False
  with assms have x: "0 < x" by simp
  let ?k = "exponent x - 52"
  let ?m = "rat_of_int (round_half_even (x / 2 powi ?k))"
  have k: "(0::rat) < 2 powi ?k" by simp
  have "binary64 x - x = (?m - x / 2 powi ?k) * 2 powi ?k"
    by (simp add: binary64_pos [OF x] algebra_simps)
  then have "\<bar>binary64 x - x\<bar> = \<bar>?m - x / 2 powi ?k\<bar> * 2 powi ?k"
    by (simp add: abs_mult)
  also have "\<dots> \<le> 1 / 2 * 2 powi ?k"
    using round_half_even_bounds [of "x / 2 powi ?k"] by (intro mult_right_mono) simp_all
  also have "\<dots> = 2 powi exponent x / 2 ^ 53"
    by (rule powi_half)
  also have "\<dots> \<le> x / 2 ^ 53"
    using exponent_bounds(1) [OF x] by (intro divide_right_mono) simp_all
  finally show ?thesis .
qed

lemma round3_mono: "0 \<le> x \<Longrightarrow> x \<le> y \<Longrightarrow> round3 x \<le> round3 y"
  by (simp add: round3_def round_half_even_mono binary64_mono divide_right_mono)

lemma round3_close: "\<bar>round3 x - binary64 x\<bar> \<le> 1 / 2000"
  using round_half_even_bounds [of "binary64 x * 1000"]
  by (simp add: round3_def abs_if field_simps split: if_splits)

lemma round3_nonneg: "0 \<le> x \<Longrightarrow> 0 \<le> round3 x"
proof -
  assume "0 \<le> x"
  then have "round3 0 \<le> round3 x" by (intro round3_mono) simp_all
  moreover have "round3 0 = 0" by (simp add: round3_def round_half_even_def binary64_def)
  ultimately show ?thesis by simp
qed

lemma round3_thousandths: "\<exists>n::int. round3 x = rat_of_int n / 1000"
  by (auto simp: round3_def)

lemma round3_ties:
  "round3 (1 / 80) = 13 / 1000 \<and> round3 (3 / 80) = 37 / 1000 \<and> round3 (1 / 2000) = 1 / 1000
   \<and> round3 (1 / 16) = 62 / 1000 \<and> round3 (3 / 16) = 188 / 1000"
  by code_simp

lemma compute_matches_entries:
  "compute_matches cand jobs =
     Inr (map (\<lambda>(jid, score). (jid, round3 score))
            (take 10 (sort_reverse snd (concat (map (entries_of (set (map lower cand))) jobs)))))"
  by (simp add: compute_matches_def scan_jobs_entries)

lemma entries_of_skipped:
  "jobId j = None \<or> jobId j = Some [] \<or> required_set j = {}
     \<or> jaccard_similarity cs (required_set j) = Inr 0 \<Longrightarrow> entries_of cs j = []"
  by (auto simp: entries_of_def score_job_def split: option.splits sum.splits)

lemma entries_of_kept:
  "(jid, s) \<in> set (entries_of cs j) \<Longrightarrow>
     jobId j = Some jid \<and> jid \<noteq> [] \<and> required_set j \<noteq> {}
     \<and> jaccard_similarity cs (required_set j) = Inr s \<and> 0 < s"
  by (auto simp: entries_of_def score_job_def split: option.splits sum.splits if_splits)

lemma set_sort_reverse: "set (sort_reverse key xs) = set xs"
  by (simp add: sort_reverse_def)

lemma results_positive:
  "x \<in> set (concat (map (entries_of cs) jobs)) \<Longrightarrow> 0 < snd x"
  using entries_of_kept [of "fst x" "snd x" cs] by auto

text \<open>
  C1. The result of \<open>compute_matches\<close> is the first 10 entries, with scores rounded to
  3 decimal places, of a list \<open>ranked\<close> that is a permutation of the scored jobs taken in
  job-scan order, is descending in the score, and keeps the scan order among entries with
  equal scores. The returned list is itself descending in the rounded scores. Every
  rounded score is a multiple of 1/1000 within 1/2000 of the double nearest to the score,
  and that double differs from the score by at most the score divided by \<open>2 ^ 53\<close>.
\<close>

theorem compute_matches_ranked_top10:
  "\<exists>results ranked out.
      compute_matches cand jobs = Inr out
    \<and> results = concat (map (entries_of (set (map lower cand))) jobs)
    \<and> mset ranked = mset results
    \<and> sorted_wrt (\<lambda>x y. snd y \<le> snd x) ranked
    \<and> (\<forall>k. filter (\<lambda>x. snd x = k) ranked = filter (\<lambda>x. snd x = k) results)
    \<and> out = map (\<lambda>(jid, score). (jid, round3 score)) (take 10 ranked)
    \<and> length out \<le> 10
    \<and> sorted_wrt (\<lambda>x y. snd y \<le> snd x) out
    \<and> (\<forall>x \<in> set ranked.
          \<bar>round3 (snd x) - binary64 (snd x)\<bar> \<le> 1 / 2000
          \<and> \<bar>binary64 (snd x) - snd x\<bar> \<le> snd x / 2 ^ 53
          \<and> (\<exists>n::int. round3 (snd x) = rat_of_int n / 1000))"
proof -
  define results where "results = concat (map (entries_of (set (map lower cand))) jobs)"
  define ranked where "ranked = sort_reverse snd results"
  define out where "out = map (\<lambda>(jid, score). (jid, round3 score)) (take 10 ranked)"
  have 1: "compute_matches cand jobs = Inr out"
    by (simp add: compute_matches_entries out_def ranked_def results_def)
  have 2: "mset ranked = mset results"
    by (simp add: ranked_def mset_sort_reverse)
  have 3: "sorted_wrt (\<lambda>x y. snd y \<le> snd x) ranked"
    unfolding ranked_def by (rule sort_reverse_descending)
  have 4: "\<forall>k. filter (\<lambda>x. snd x = k) ranked = filter (\<lambda>x. snd x = k) results"
    by (simp add: ranked_def sort_reverse_stable)
  have 5: "length out \<le> 10"
    by (simp add: out_def)
  have pos: "0 < snd x" if "x \<in> set ranked" for x
    using that results_positive unfolding ranked_def results_def set_sort_reverse by blast
  have "sorted_wrt (\<lambda>x y. snd y \<le> snd x) (take 10 ranked)"
    using 3 by (rule sorted_wrt_take)
  then have "sorted_wrt (\<lambda>x y. round3 (snd y) \<le> round3 (snd x)) (take 10 ranked)"
  proof (rule sorted_wrt_mono_rel [rotated])
    fix x y
    assume "y \<in> set (take 10 ranked)" and le: "snd y \<le> snd x"
    then have "0 < snd y" using pos in_set_takeD by fast
    with le show "round3 (snd y) \<le> round3 (snd x)" by (intro round3_mono) simp_all
  qed
  then have 6: "sorted_wrt (\<lambda>x y. snd y \<le> snd x) out"
    by (simp add: out_def sorted_wrt_map case_prod_unfold)
  have 7: "\<forall>x \<in> set ranked.
      \<bar>round3 (snd x) - binary64 (snd x)\<bar> \<le> 1 / 2000
      \<and> \<bar>binary64 (snd x) - snd x\<bar> \<le> snd x / 2 ^ 53
      \<and> (\<exists>n::int. round3 (snd x) = rat_of_int n / 1000)"
  proof
    fix x assume "x \<in> set ranked"
    then have "0 \<le> snd x" using pos [of x] by simp
    then have "\<bar>binary64 (snd x) - snd x\<bar> \<le> snd x / 2 ^ 53" by (rule binary64_close)
    with round3_close [of "snd x"] round3_thousandths [of "snd x"]
    show "\<bar>round3 (snd x) - binary64 (snd x)\<bar> \<le> 1 / 2000
      \<and> \<bar>binary64 (snd x) - snd x\<bar> \<le> snd x / 2 ^ 53
      \<and> (\<exists>n::int. round3 (snd x) = rat_of_int n / 1000)" by (intro conjI)
  qed
  show ?thesis
    apply (rule exI [of _ results])
    apply (rule exI [of _ ranked])
    apply (rule exI [of _ out])
    apply (intro conjI)
            apply (rule 1)
           apply (rule results_def)
          apply (rule 2)
         apply (rule 3)
        apply (rule 4)
       apply (rule out_def)
      apply (rule 5)
     apply (rule 6)
    apply (rule 7)
    done
qed

lemma demo_value:
  "compute_matches [''python'', ''aws''] demo_jobs
     = Inr [(''j2'', 1), (''j1'', 333 / 1000), (''j3'', 333 / 1000)]"
  by code_simp

lemma eighty_value:
  "compute_matches [''07''] [\<lparr>jobId = Some ''j80'', required_skills = Some eighty_skills\<rparr>]
     = Inr [(''j80'', 13 / 1000)]"
  by code_simp

theorem compute_matches_ranked_top10_witness:
  "compute_matches [''python'', ''aws''] demo_jobs
     = Inr [(''j2'', 1), (''j1'', 333 / 1000), (''j3'', 333 / 1000)]
   \<and> (\<exists>out. compute_matches [''python'', ''aws''] demo_jobs = Inr out \<and> length out \<le> 10)
   \<and> compute_matches [''07''] [\<lparr>jobId = Some ''j80'', required_skills = Some eighty_skills\<rparr>]
     = Inr [(''j80'', 13 / 1000)]"
proof -
  from compute_matches_ranked_top10 [of "[''python'', ''aws'']" demo_jobs]
  obtain out where "compute_matches [''python'', ''aws''] demo_jobs = Inr out" "length out \<le> 10"
    by (elim exE conjE) (rule that; assumption)
  then show ?thesis using demo_value eighty_value by simp
qed

lemma str_items_map_PStr: "str_items (map (\<lambda>n. PStr (f n)) ns) = map f ns"
  by (induction ns) simp_all

lemma lower_replicate_a: "lower (replicate n (CHR ''a'')) = replicate n (CHR ''a'')"
  by (simp add: lower_def lower_char_def)

lemma required_set_wide:
  "required_set \<lparr>jobId = Some ''j1'', required_skills = Some wide_skills\<rparr>
     = (\<lambda>n. replicate n (CHR ''a'')) ` {1..<2002}"
  by (simp add: required_set_def wide_skills_def str_items_map_PStr lower_replicate_a image_image
      del: upt.simps)

lemma card_wide: "card ((\<lambda>n. replicate n (CHR ''a'')) ` {1..<2002}) = 2001"
proof -
  have "inj_on (\<lambda>n. replicate n (CHR ''a'')) {1..<2002}"
    by (rule inj_onI) (metis length_replicate)
  then show ?thesis by (simp add: card_image)
qed

lemma a_in_wide: "''a'' \<in> (\<lambda>n. replicate n (CHR ''a'')) ` {1..<2002}"
  by (rule image_eqI [where x = 1]) simp_all

lemma round3_small: "round3 (1 / 2001) = 0"
  by code_simp

text \<open>
  C3, as stated, fails: a job with 2001 distinct required skills of which the candidate
  has one scores 1/2001, which is positive and is kept, and is reported rounded as 0.
\<close>

theorem compute_matches_zero_score_counterexample: "compute_matches [''a''] [\<lparr>jobId = Some ''j1'', required_skills = Some wide_skills\<rparr>]
         = Inr [(''j1'', 0)]"
proof -
  define W where "W = (\<lambda>n. replicate n (CHR ''a'')) ` {1..<2002}"
  have r: "required_set \<lparr>jobId = Some ''j1'', required_skills = Some wide_skills\<rparr> = W"
    unfolding W_def by (rule required_set_wide)
  have a: "''a'' \<in> W" unfolding W_def by (rule a_in_wide)
  have c: "card W = 2001" unfolding W_def by (rule card_wide)
  have f: "finite W" unfolding W_def by simp
  have l: "lower ''a'' = ''a''" by (simp add: lower_def lower_char_def)
  have i: "{''a''} \<inter> W = {''a''}" using a by blast
  have u: "{''a''} \<union> W = W" using a by blast
  have ne: "W \<noteq> {}" using a by blast
  have "jaccard_similarity {''a''} W
          = Inr (rat_of_nat (card ({''a''} \<inter> W)) / rat_of_nat (card ({''a''} \<union> W)))"
    using f ne by (intro jaccard_similarity_Inr) simp_all
  then have j: "jaccard_similarity {''a''} W = Inr (1 / 2001)"
    unfolding i u c by simp
  show ?thesis
    using ne by (simp add: compute_matches_def score_job_def r l j sort_reverse_def round3_small)
qed



text \<open>
  C3, amended. A job without \<open>jobId\<close> (or with an empty one), with an empty set of
  lowercased required skills or with similarity 0 adds nothing: the loop body yields no
  entry and the result is the same as without that job. Every returned entry comes from a
  job with a non-empty \<open>jobId\<close> and skill set whose unrounded similarity is strictly
  positive; the returned score is that similarity rounded, and is not negative.
\<close>

theorem compute_matches_skips_and_filters:
  "(jobId j = None \<or> jobId j = Some [] \<or> required_set j = {}
      \<or> jaccard_similarity (set (map lower cand)) (required_set j) = Inr 0
    \<longrightarrow> score_job (set (map lower cand)) j = Inr None
        \<and> compute_matches cand (pre @ j # post) = compute_matches cand (pre @ post))
   \<and> (\<exists>out. compute_matches cand jobs = Inr out
        \<and> (\<forall>(jid, r) \<in> set out. 0 \<le> r
              \<and> (\<exists>j' \<in> set jobs. \<exists>s. jobId j' = Some jid \<and> jid \<noteq> [] \<and> required_set j' \<noteq> {}
                    \<and> jaccard_similarity (set (map lower cand)) (required_set j') = Inr s
                    \<and> 0 < s \<and> r = round3 s)))"
proof (intro conjI impI)
  let ?cs = "set (map lower cand)"
  assume a: "jobId j = None \<or> jobId j = Some [] \<or> required_set j = {}
      \<or> jaccard_similarity ?cs (required_set j) = Inr 0"
  then show "score_job ?cs j = Inr None"
    by (auto simp: score_job_def split: option.splits)
  from a have "entries_of ?cs j = []" by (rule entries_of_skipped)
  then show "compute_matches cand (pre @ j # post) = compute_matches cand (pre @ post)"
    by (simp add: compute_matches_entries)
next
  let ?cs = "set (map lower cand)"
  let ?results = "concat (map (entries_of ?cs) jobs)"
  let ?out = "map (\<lambda>(jid, score). (jid, round3 score)) (take 10 (sort_reverse snd ?results))"
  have "0 \<le> r \<and> (\<exists>j' \<in> set jobs. \<exists>s. jobId j' = Some jid \<and> jid \<noteq> [] \<and> required_set j' \<noteq> {}
            \<and> jaccard_similarity ?cs (required_set j') = Inr s \<and> 0 < s \<and> r = round3 s)"
    if "(jid, r) \<in> set ?out" for jid r
  proof -
    from that obtain s where s: "(jid, s) \<in> set (take 10 (sort_reverse snd ?results))" "r = round3 s"
      by auto
    from s(1) have "(jid, s) \<in> set ?results"
      using in_set_takeD set_sort_reverse by fast
    then obtain j' where j': "j' \<in> set jobs" "(jid, s) \<in> set (entries_of ?cs j')"
      by auto
    from entries_of_kept [OF j'(2)] have k: "jobId j' = Some jid \<and> jid \<noteq> [] \<and> required_set j' \<noteq> {}
     \<and> jaccard_similarity ?cs (required_set j') = Inr s \<and> 0 < s" .
    then have "0 \<le> r" using s(2) round3_nonneg [of s] by simp
    with k j'(1) s(2) show ?thesis by blast
  qed
  then show "\<exists>out. compute_matches cand jobs = Inr out
        \<and> (\<forall>(jid, r) \<in> set out. 0 \<le> r
              \<and> (\<exists>j' \<in> set jobs. \<exists>s. jobId j' = Some jid \<and> jid \<noteq> [] \<and> required_set j' \<noteq> {}
                    \<and> jaccard_similarity ?cs (required_set j') = Inr s
                    \<and> 0 < s \<and> r = round3 s))"
    unfolding compute_matches_entries by blast
qed


theorem compute_matches_skips_and_filters_witness:
  "jobId \<lparr>jobId = None, required_skills = Some [PStr ''python'']\<rparr> = None
   \<and> compute_matches [''python'']
         ([] @ \<lparr>jobId = None, required_skills = Some [PStr ''python'']\<rparr> # demo_jobs)
       = compute_matches [''python''] ([] @ demo_jobs)
   \<and> (\<exists>out. compute_matches [''python'', ''aws''] demo_jobs = Inr out \<and> out \<noteq> [])"
proof -
  have "compute_matches [''python'']
         ([] @ \<lparr>jobId = None, required_skills = Some [PStr ''python'']\<rparr> # demo_jobs)
       = compute_matches [''python''] ([] @ demo_jobs)"
    using compute_matches_skips_and_filters
      [of "\<lparr>jobId = None, required_skills = Some [PStr ''python'']\<rparr>" "[''python'']" "[]" demo_jobs]
    by simp
  then show ?thesis using demo_value by simp
qed


section \<open>Regular expression search\<close>

lemma startswith_iff: "startswith s p \<longleftrightarrow> (\<exists>t. s = p @ t)"
  by (induction s p rule: startswith.induct) auto

lemma contains_iff: "contains sub s \<longleftrightarrow> (\<exists>pre post. s = pre @ sub @ post)"
proof (induction s)
  case Nil
  then show ?case by simp
next
  case (Cons c cs)
  show ?case
  proof
    assume "contains sub (c # cs)"
    then consider "startswith (c # cs) sub" | "contains sub cs" by auto
    then show "\<exists>pre post. c # cs = pre @ sub @ post"
    proof cases
      case 1
      then obtain t where "c # cs = sub @ t" by (auto simp: startswith_iff)
      then have "c # cs = [] @ sub @ t" by simp
      then show ?thesis by blast
    next
      case 2
      with Cons.IH obtain pre post where "cs = pre @ sub @ post" by blast
      then have "c # cs = (c # pre) @ sub @ post" by simp
      then show ?thesis by blast
    qed
  next
    assume "\<exists>pre post. c # cs = pre @ sub @ post"
    then obtain pre post where e: "c # cs = pre @ sub @ post" by blast
    show "contains sub (c # cs)"
    proof (cases pre)
      case Nil
      with e have "\<exists>t. c # cs = sub @ t" by auto
      then have "startswith (c # cs) sub" by (simp only: startswith_iff)
      then show ?thesis by simp
    next
      case (Cons a pre')
      with e have "cs = pre' @ sub @ post" by simp
      with Cons.IH show ?thesis by auto
    qed
  qed
qed

lemma rx_match_Rep_iff:
  "rest \<in> set (rx_match (Rep p n) s) \<longleftrightarrow>
     (\<exists>k. n \<le> k \<and> k \<le> length (takeWhile p s) \<and> rest = drop k s)"
  by (auto simp: image_iff)

lemma take_takeWhile_all: "k \<le> length (takeWhile p s) \<Longrightarrow> list_all p (take k s)"
proof -
  assume k: "k \<le> length (takeWhile p s)"
  have "take k (takeWhile p s @ dropWhile p s) = take k (takeWhile p s)"
    using k by (simp del: takeWhile_dropWhile_id)
  then have "take k s = take k (takeWhile p s)" by simp
  then have "set (take k s) \<subseteq> set (takeWhile p s)" by (simp add: set_take_subset)
  then show ?thesis by (auto simp: list_all_iff dest: set_takeWhileD)
qed

lemma rx_match_sound: "rest \<in> set (rx_match r s) \<Longrightarrow> \<exists>w \<in> lang r. s = w @ rest"
proof (induction r arbitrary: s rest)
  case (Str w)
  then show ?case by (auto simp: startswith_iff split: if_splits)
next
  case (Rep p n)
  then obtain k where k: "n \<le> k" "k \<le> length (takeWhile p s)" "rest = drop k s"
    unfolding rx_match_Rep_iff by blast
  have "length (takeWhile p s) \<le> length s" by (rule length_takeWhile_le)
  with k have "length (take k s) = k" by simp
  with k take_takeWhile_all [OF k(2)] have "take k s \<in> lang (Rep p n)" by simp
  moreover have "s = take k s @ rest" using k by simp
  ultimately show ?case by blast
next
  case (Opt r)
  then show ?case by auto
next
  case (Cat r1 r2)
  then obtain mid where m: "mid \<in> set (rx_match r1 s)" "rest \<in> set (rx_match r2 mid)" by auto
  from Cat.IH(1) [OF m(1)] obtain u where u: "u \<in> lang r1" "s = u @ mid" by blast
  from Cat.IH(2) [OF m(2)] obtain v where v: "v \<in> lang r2" "mid = v @ rest" by blast
  from u v have "u @ v \<in> lang (Cat r1 r2)" "s = (u @ v) @ rest" by auto
  then show ?case by blast
qed

lemma rx_match_complete: "w \<in> lang r \<Longrightarrow> rest \<in> set (rx_match r (w @ rest))"
proof (induction r arbitrary: w rest)
  case (Str x)
  then show ?case by (simp add: startswith_iff)
next
  case (Rep p n)
  then have w: "n \<le> length w" "list_all p w" by simp_all
  then have "takeWhile p (w @ rest) = w @ takeWhile p rest"
    by (simp add: takeWhile_append2 list_all_iff)
  then have "length w \<le> length (takeWhile p (w @ rest))" by simp
  with w(1) show ?case unfolding rx_match_Rep_iff by (intro exI [of _ "length w"]) simp
next
  case (Opt r)
  then show ?case by auto
next
  case (Cat r1 r2)
  then obtain u v where uv: "w = u @ v" "u \<in> lang r1" "v \<in> lang r2" by auto
  from Cat.IH(1) [OF uv(2)] have "v @ rest \<in> set (rx_match r1 (u @ v @ rest))" .
  moreover from Cat.IH(2) [OF uv(3)] have "rest \<in> set (rx_match r2 (v @ rest))" .
  ultimately show ?case using uv(1) by auto
qed

lemma rx_match_empty_iff: "rx_match r s = [] \<longleftrightarrow> \<not> (\<exists>w rest. w \<in> lang r \<and> s = w @ rest)"
proof
  assume e: "rx_match r s = []"
  show "\<not> (\<exists>w rest. w \<in> lang r \<and> s = w @ rest)"
  proof
    assume "\<exists>w rest. w \<in> lang r \<and> s = w @ rest"
    then obtain w rest where "w \<in> lang r" "s = w @ rest" by blast
    then have "rest \<in> set (rx_match r s)" using rx_match_complete by blast
    with e show False by simp
  qed
next
  assume n: "\<not> (\<exists>w rest. w \<in> lang r \<and> s = w @ rest)"
  show "rx_match r s = []"
  proof (rule ccontr)
    assume "rx_match r s \<noteq> []"
    then obtain rest where "rest \<in> set (rx_match r s)" by (cases "rx_match r s") auto
    from rx_match_sound [OF this] n show False by blast
  qed
qed

lemma re_search_None_iff:
  "re_search r s = None \<longleftrightarrow> \<not> (\<exists>pre w post. w \<in> lang r \<and> s = pre @ w @ post)"
proof (induction s)
  case Nil
  have "re_search r [] = None \<longleftrightarrow> rx_match r [] = []" by (simp split: list.splits)
  then show ?case by (simp add: rx_match_empty_iff)
next
  case (Cons c cs)
  show ?case
  proof (cases "rx_match r (c # cs)")
    case Nil
    then have no: "\<not> (\<exists>w rest. w \<in> lang r \<and> c # cs = w @ rest)" by (simp add: rx_match_empty_iff)
    have "(\<exists>pre w post. w \<in> lang r \<and> c # cs = pre @ w @ post)
            \<longleftrightarrow> (\<exists>pre w post. w \<in> lang r \<and> cs = pre @ w @ post)"
    proof
      assume "\<exists>pre w post. w \<in> lang r \<and> c # cs = pre @ w @ post"
      then obtain pre w post where h: "w \<in> lang r" "c # cs = pre @ w @ post" by blast
      show "\<exists>pre w post. w \<in> lang r \<and> cs = pre @ w @ post"
      proof (cases pre)
        case Nil
        with h no show ?thesis by auto
      next
        case (Cons a pre')
        with h have "cs = pre' @ w @ post" by simp
        with h(1) show ?thesis by blast
      qed
    next
      assume "\<exists>pre w post. w \<in> lang r \<and> cs = pre @ w @ post"
      then obtain pre w post where h: "w \<in> lang r" "cs = pre @ w @ post" by blast
      then have "c # cs = (c # pre) @ w @ post" by simp
      with h(1) show "\<exists>pre w post. w \<in> lang r \<and> c # cs = pre @ w @ post" by blast
    qed
    with Nil Cons.IH show ?thesis by simp
  next
    case (Cons rest rs)
    then have "rest \<in> set (rx_match r (c # cs))" by simp
    from rx_match_sound [OF this] obtain w where "w \<in> lang r" "c # cs = [] @ w @ rest" by auto
    then have "\<exists>pre w post. w \<in> lang r \<and> c # cs = pre @ w @ post" by blast
    with Cons show ?thesis by simp
  qed
qed

lemma re_search_Some:
  "re_search r s = Some m \<Longrightarrow>
     \<exists>pre post. s = pre @ m @ post \<and> m \<in> lang r
       \<and> (\<forall>pre' w post'. w \<in> lang r \<and> s = pre' @ w @ post' \<longrightarrow> length pre \<le> length pre')"
proof (induction s)
  case Nil
  then have "m = []" "rx_match r [] \<noteq> []" by (auto split: list.splits)
  then obtain rest where "rest \<in> set (rx_match r [])" by (cases "rx_match r []") auto
  from rx_match_sound [OF this] have "[] \<in> lang r" by auto
  with \<open>m = []\<close> show ?case by auto
next
  case (Cons c cs)
  show ?case
  proof (cases "rx_match r (c # cs)")
    case Nil
    with Cons.prems have "re_search r cs = Some m" by simp
    from Cons.IH [OF this] obtain pre post where p: "cs = pre @ m @ post" "m \<in> lang r"
      "\<forall>pre' w post'. w \<in> lang r \<and> cs = pre' @ w @ post' \<longrightarrow> length pre \<le> length pre'" by blast
    from Nil have no: "\<not> (\<exists>w rest. w \<in> lang r \<and> c # cs = w @ rest)" by (simp add: rx_match_empty_iff)
    have "length (c # pre) \<le> length pre'" if "w \<in> lang r" "c # cs = pre' @ w @ post'" for pre' w post'
    proof (cases pre')
      case Nil
      with that no show ?thesis by auto
    next
      case (Cons a q)
      with that have "cs = q @ w @ post'" by simp
      with p(3) that(1) have "length pre \<le> length q" by blast
      with Cons show ?thesis by simp
    qed
    moreover have "c # cs = (c # pre) @ m @ post" using p(1) by simp
    ultimately show ?thesis using p(2) by blast
  next
    case (Cons rest rs)
    with Cons.prems have m: "m = take (length (c # cs) - length rest) (c # cs)" by simp
    from Cons have "rest \<in> set (rx_match r (c # cs))" by simp
    from rx_match_sound [OF this] obtain w where w: "w \<in> lang r" "c # cs = w @ rest" by blast
    then have "m = w" using m by simp
    with w have "c # cs = [] @ m @ rest" "m \<in> lang r" by simp_all
    then show ?thesis by (metis le0 list.size(3))
  qed
qed


lemma rx_match_group_Some:
  assumes "rx_match_group g t s = Some (grp, rest)"
  shows "grp \<in> lang g \<and> (\<exists>v \<in> lang t. s = grp @ v @ rest)"
proof -
  from assms obtain mid ms where f: "filter (\<lambda>mid. rx_match t mid \<noteq> []) (rx_match g s) = mid # ms"
    and g: "grp = take (length s - length mid) s" and r: "rest = hd (rx_match t mid)"
    by (auto simp: rx_match_group_def split: list.splits)
  from f have "mid \<in> set (filter (\<lambda>mid. rx_match t mid \<noteq> []) (rx_match g s))" by simp
  then have m: "mid \<in> set (rx_match g s)" "rx_match t mid \<noteq> []" by simp_all
  from rx_match_sound [OF m(1)] obtain u where u: "u \<in> lang g" "s = u @ mid" by blast
  from m(2) r have "rest \<in> set (rx_match t mid)" by simp
  from rx_match_sound [OF this] obtain v where v: "v \<in> lang t" "mid = v @ rest" by blast
  from u g have "grp = u" by simp
  with u v show ?thesis by auto
qed

lemma rx_match_group_None_iff:
  "rx_match_group g t s = None \<longleftrightarrow>
     \<not> (\<exists>u v rest. u \<in> lang g \<and> v \<in> lang t \<and> s = u @ v @ rest)"
proof -
  have "rx_match_group g t s = None \<longleftrightarrow> filter (\<lambda>mid. rx_match t mid \<noteq> []) (rx_match g s) = []"
    by (simp add: rx_match_group_def split: list.splits)
  also have "\<dots> \<longleftrightarrow> (\<forall>mid \<in> set (rx_match g s). rx_match t mid = [])"
    by (simp add: filter_empty_conv)
  also have "\<dots> \<longleftrightarrow> \<not> (\<exists>u v rest. u \<in> lang g \<and> v \<in> lang t \<and> s = u @ v @ rest)"
  proof
    assume a: "\<forall>mid \<in> set (rx_match g s). rx_match t mid = []"
    show "\<not> (\<exists>u v rest. u \<in> lang g \<and> v \<in> lang t \<and> s = u @ v @ rest)"
    proof
      assume "\<exists>u v rest. u \<in> lang g \<and> v \<in> lang t \<and> s = u @ v @ rest"
      then obtain u v rest where h: "u \<in> lang g" "v \<in> lang t" "s = u @ v @ rest" by blast
      from rx_match_complete [OF h(1)] h(3) have "v @ rest \<in> set (rx_match g s)" by simp
      with a have "rx_match t (v @ rest) = []" by blast
      moreover from rx_match_complete [OF h(2)] have "rest \<in> set (rx_match t (v @ rest))" .
      ultimately show False by simp
    qed
  next
    assume n: "\<not> (\<exists>u v rest. u \<in> lang g \<and> v \<in> lang t \<and> s = u @ v @ rest)"
    show "\<forall>mid \<in> set (rx_match g s). rx_match t mid = []"
    proof
      fix mid assume "mid \<in> set (rx_match g s)"
      from rx_match_sound [OF this] obtain u where u: "u \<in> lang g" "s = u @ mid" by blast
      show "rx_match t mid = []"
      proof (rule ccontr)
        assume "rx_match t mid \<noteq> []"
        then obtain rest where "rest \<in> set (rx_match t mid)" by (cases "rx_match t mid") auto
        from rx_match_sound [OF this] obtain v where "v \<in> lang t" "mid = v @ rest" by blast
        with u n show False by blast
      qed
    qed
  qed
  finally show ?thesis .
qed

lemma occurs_shift: "occurs g t s m \<Longrightarrow> occurs g t (q @ s) m"
proof -
  assume "occurs g t s m"
  then obtain pre v post where h: "m \<in> lang g" "v \<in> lang t" "s = pre @ m @ v @ post"
    by (auto simp: occurs_def)
  then have "q @ s = (q @ pre) @ m @ v @ post" by simp
  with h(1,2) show ?thesis unfolding occurs_def by blast
qed

lemma re_findall_None:
  "rx_match_group g t s = None \<Longrightarrow>
     re_findall g t s = (case s of [] \<Rightarrow> [] | c # cs \<Rightarrow> re_findall g t cs)"
  by (subst re_findall.simps) simp

lemma re_findall_Some:
  "rx_match_group g t s = Some (grp, rest) \<Longrightarrow>
     re_findall g t s =
       grp # (if s = [] then []
              else if length rest < length s then re_findall g t rest
              else re_findall g t (tl s))"
  by (subst re_findall.simps) simp

lemma re_findall_occurs: "m \<in> set (re_findall g t s) \<Longrightarrow> occurs g t s m"
proof (induction g t s rule: re_findall.induct)
  case (1 g t s)
  show ?case
  proof (cases "rx_match_group g t s")
    case None
    with "1.prems" obtain c cs where s: "s = c # cs" "m \<in> set (re_findall g t cs)"
      by (auto simp: re_findall_None split: list.splits)
    from "1.IH"(1) [OF None s(1) s(2)] have "occurs g t cs m" .
    from occurs_shift [OF this, of "[c]"] s(1) show ?thesis by simp
  next
    case (Some a)
    obtain grp rest where a: "a = (grp, rest)" by (cases a)
    from rx_match_group_Some [OF Some [unfolded a]]
    obtain v where v: "grp \<in> lang g" "v \<in> lang t" "s = grp @ v @ rest" by blast
    then have here: "occurs g t s grp" unfolding occurs_def by (metis append_Nil)
    from "1.prems" Some a have
      "m = grp \<or> (s \<noteq> [] \<and> length rest < length s \<and> m \<in> set (re_findall g t rest))
         \<or> (s \<noteq> [] \<and> \<not> length rest < length s \<and> m \<in> set (re_findall g t (tl s)))"
      by (auto simp: re_findall_Some split: if_splits)
    then consider "m = grp" | "s \<noteq> []" "length rest < length s" "m \<in> set (re_findall g t rest)"
      | "s \<noteq> []" "\<not> length rest < length s" "m \<in> set (re_findall g t (tl s))" by blast
    then show ?thesis
    proof cases
      case 1
      with here show ?thesis by simp
    next
      case 2
      from "1.IH"(2) [OF Some a [symmetric] 2(1) 2(2) 2(3)] have "occurs g t rest m" .
      from occurs_shift [OF this, of "grp @ v"] v(3) show ?thesis by simp
    next
      case 3
      from "1.IH"(3) [OF Some a [symmetric] 3(1) 3(2) 3(3)] have "occurs g t (tl s) m" .
      from occurs_shift [OF this, of "[hd s]"] 3(1) show ?thesis by simp
    qed
  qed
qed


lemma re_findall_found:
  "u \<in> lang g \<Longrightarrow> v \<in> lang t \<Longrightarrow> re_findall g t (pre @ u @ v @ post) \<noteq> []"
proof (induction pre)
  case Nil
  then have "rx_match_group g t (u @ v @ post) \<noteq> None"
    unfolding rx_match_group_None_iff by blast
  then obtain grp rest where "rx_match_group g t (u @ v @ post) = Some (grp, rest)" by auto
  from re_findall_Some [OF this] show ?case by simp
next
  case (Cons c pre)
  show ?case
  proof (cases "rx_match_group g t ((c # pre) @ u @ v @ post)")
    case None
    from re_findall_None [OF this] Cons show ?thesis by simp
  next
    case (Some a)
    obtain grp rest where "a = (grp, rest)" by (cases a)
    with Some re_findall_Some show ?thesis by fastforce
  qed
qed

lemma re_findall_Nil_iff: "re_findall g t s = [] \<longleftrightarrow> \<not> (\<exists>m. occurs g t s m)"
proof
  assume e: "re_findall g t s = []"
  show "\<not> (\<exists>m. occurs g t s m)"
  proof
    assume "\<exists>m. occurs g t s m"
    then obtain m pre v post where "m \<in> lang g" "v \<in> lang t" "s = pre @ m @ v @ post"
      unfolding occurs_def by blast
    with re_findall_found [of m g v t pre post] e show False by simp
  qed
next
  assume n: "\<not> (\<exists>m. occurs g t s m)"
  show "re_findall g t s = []"
  proof (rule ccontr)
    assume "re_findall g t s \<noteq> []"
    then obtain m where "m \<in> set (re_findall g t s)" by (cases "re_findall g t s") auto
    from re_findall_occurs [OF this] n show False by blast
  qed
qed

lemma not_digit_dot: "\<not> is_digit (CHR ''.'')"
  by (simp add: is_digit_def)

lemma lang_number_group:
  "w \<in> lang number_group \<longleftrightarrow>
     (\<exists>ds. ds \<noteq> [] \<and> list_all is_digit ds \<and>
        (w = ds \<or> (\<exists>fs. fs \<noteq> [] \<and> list_all is_digit fs \<and> w = ds @ CHR ''.'' # fs)))"
  unfolding number_group_def
  by (auto simp: Suc_le_eq)

lemma py_float_digits:
  assumes "ds \<noteq> []" "list_all is_digit ds"
  shows "py_float ds = Inr (rat_of_nat (digits_val ds))"
proof -
  from assms(2) have tw: "takeWhile is_digit ds = ds" and dw: "dropWhile is_digit ds = []"
    by (simp_all add: list_all_iff)
  show ?thesis using assms(1) by (simp add: py_float_def Let_def tw dw)
qed

lemma py_float_decimal:
  assumes "ds \<noteq> []" "list_all is_digit ds" "fs \<noteq> []" "list_all is_digit fs"
  shows "py_float (ds @ CHR ''.'' # fs)
           = Inr (rat_of_nat (digits_val ds) + rat_of_nat (digits_val fs) / 10 ^ length fs)"
proof -
  from assms(2) have tw: "takeWhile is_digit (ds @ CHR ''.'' # fs) = ds"
    and dw: "dropWhile is_digit (ds @ CHR ''.'' # fs) = CHR ''.'' # fs"
    by (simp_all add: list_all_iff takeWhile_append2 dropWhile_append2 not_digit_dot)
  show ?thesis using assms(1,3,4) by (simp add: py_float_def Let_def tw dw)
qed

lemma py_float_number_group:
  "w \<in> lang number_group \<Longrightarrow> \<exists>y. py_float w = Inr y \<and> 0 \<le> y"
  unfolding lang_number_group
  by (auto simp: py_float_digits py_float_decimal)

lemma floats_total:
  "(\<forall>m \<in> set ms. \<exists>y. py_float m = Inr y \<and> 0 \<le> y) \<Longrightarrow>
     \<exists>ys. floats ms = Inr ys \<and> length ys = length ms \<and> (\<forall>y \<in> set ys. 0 \<le> y)
       \<and> (\<forall>i < length ms. py_float (ms ! i) = Inr (ys ! i))"
proof (induction ms)
  case Nil
  then show ?case by simp
next
  case (Cons m ms)
  then obtain y where y: "py_float m = Inr y" "0 \<le> y" by auto
  from Cons obtain ys where ys: "floats ms = Inr ys" "length ys = length ms" "\<forall>y \<in> set ys. 0 \<le> y"
    "\<forall>i < length ms. py_float (ms ! i) = Inr (ys ! i)" by auto
  have "\<forall>i < length (m # ms). py_float ((m # ms) ! i) = Inr ((y # ys) ! i)"
    using y(1) ys(4) by (auto simp: nth_Cons split: nat.splits)
  with y ys show ?case by auto
qed

lemma py_max_Max: "xs \<noteq> [] \<Longrightarrow> py_max xs = Inr (Max (set xs))"
  by (cases xs) (simp_all add: py_max_def Max.set_eq_fold [symmetric])

lemma extract_experience_years_total:
  "\<exists>ys. floats (re_findall number_group years_tail s) = Inr ys
     \<and> length ys = length (re_findall number_group years_tail s)
     \<and> (\<forall>y \<in> set ys. 0 \<le> y)
     \<and> (\<forall>i < length ys. py_float (re_findall number_group years_tail s ! i) = Inr (ys ! i))
     \<and> extract_experience_years s = Inr (if ys = [] then 0 else Max (set ys))"
proof -
  have "\<forall>m \<in> set (re_findall number_group years_tail s). \<exists>y. py_float m = Inr y \<and> 0 \<le> y"
    using re_findall_occurs py_float_number_group unfolding occurs_def by blast
  from floats_total [OF this] obtain ys where
    ys: "floats (re_findall number_group years_tail s) = Inr ys"
      "length ys = length (re_findall number_group years_tail s)" "\<forall>y \<in> set ys. 0 \<le> y"
      "\<forall>i < length (re_findall number_group years_tail s).
          py_float (re_findall number_group years_tail s ! i) = Inr (ys ! i)" by blast
  have "extract_experience_years s = Inr (if ys = [] then 0 else Max (set ys))"
    by (simp add: extract_experience_years_def ys(1) py_max_Max)
  with ys show ?thesis by auto
qed

section \<open>Profile parser: lines, vocabulary, totality\<close>

lemma fold_insert_if:
  "fold (\<lambda>x acc. if P x then insert (f x) acc else acc) xs A = A \<union> f ` {x \<in> set xs. P x}"
  by (induction xs arbitrary: A) auto

lemma extract_skills_eq:
  "extract_skills t = {k \<in> set SKILL_KEYWORDS. \<exists>pre post. t = pre @ k @ post}"
  unfolding extract_skills_def
  using fold_insert_if [of "\<lambda>k. contains k t" "\<lambda>k. k" SKILL_KEYWORDS "{}"]
  by (simp add: contains_iff)

lemma extract_titles_eq:
  "extract_titles t =
     strip ` {l \<in> set (splitlines t). \<exists>w \<in> set title_keywords. \<exists>pre post. l = pre @ w @ post}"
  unfolding extract_titles_def
  using fold_insert_if [of "\<lambda>l. list_ex (\<lambda>w. contains w l) title_keywords" strip "splitlines t" "{}"]
  by (simp add: contains_iff list_ex_iff)

lemma finite_extract_skills: "finite (extract_skills t)"
  by (simp add: extract_skills_eq)

lemma finite_extract_titles: "finite (extract_titles t)"
  by (simp add: extract_titles_eq)

lemma of_char_add32: "(of_char c :: nat) + 32 < 256 \<Longrightarrow> of_char (char_of (of_char c + 32 :: nat)) = (of_char c :: nat) + 32"
  by simp

lemma lower_char_idem: "lower_char (lower_char c) = lower_char c"
proof -
  define n where "n = (of_char c :: nat)"
  show ?thesis
  proof (cases "(65 \<le> n \<and> n \<le> 90) \<or> (192 \<le> n \<and> n \<le> 214) \<or> (216 \<le> n \<and> n \<le> 222)")
    case True
    then have l: "lower_char c = char_of (n + 32)" by (simp add: lower_char_def n_def)
    from True have "(of_char (char_of (n + 32)) :: nat) = n + 32" by auto
    with True show ?thesis unfolding l by (auto simp: lower_char_def Let_def)
  next
    case False
    then have "lower_char c = c" by (auto simp: lower_char_def n_def Let_def)
    then show ?thesis by simp
  qed
qed

lemma lower_idem: "lower (lower t) = lower t"
  by (simp add: lower_def lower_char_idem)

lemma strip_empty_iff: "strip s = [] \<longleftrightarrow> (\<forall>c \<in> set s. is_space c)"
proof -
  have "strip s = [] \<longleftrightarrow> (\<forall>c \<in> set (dropWhile is_space s). is_space c)"
    by (simp add: strip_def dropWhile_eq_Nil_conv)
  also have "\<dots> \<longleftrightarrow> dropWhile is_space s = []"
  proof
    assume a: "\<forall>c \<in> set (dropWhile is_space s). is_space c"
    show "dropWhile is_space s = []"
    proof (rule ccontr)
      assume n: "dropWhile is_space s \<noteq> []"
      then have "\<not> is_space (hd (dropWhile is_space s))" by (rule hd_dropWhile)
      moreover from n have "hd (dropWhile is_space s) \<in> set (dropWhile is_space s)" by simp
      ultimately show False using a by blast
    qed
  next
    assume e: "dropWhile is_space s = []"
    show "\<forall>c \<in> set (dropWhile is_space s). is_space c" unfolding e by simp
  qed
  also have "\<dots> \<longleftrightarrow> (\<forall>c \<in> set s. is_space c)" by (simp add: dropWhile_eq_Nil_conv)
  finally show ?thesis .
qed

lemma linebreak_space: "is_linebreak c \<Longrightarrow> is_space c"
  by (auto simp: is_linebreak_def is_space_def Let_def)

lemma splitlines_from_chars:
  "set (concat (splitlines_from line s)) \<subseteq> set line \<union> set s
   \<and> set line \<union> set s \<subseteq> set (concat (splitlines_from line s)) \<union> {c. is_linebreak c}"
proof (induction line s rule: splitlines_from.induct)
  case (1 line)
  then show ?case by auto
next
  case (2 line c cs)
  have lf: "is_linebreak (CHR 0x0A)" "is_linebreak (CHR 0x0D)" by (simp_all add: is_linebreak_def)
  show ?case
  proof (cases "c = CHR 0x0D \<and> cs \<noteq> [] \<and> hd cs = CHR 0x0A")
    case True
    then obtain ds where cs: "cs = CHR 0x0A # ds" by (cases cs) auto
    from "2.IH"(1) [OF True] True cs lf show ?thesis by auto
  next
    case False
    show ?thesis
    proof (cases "is_linebreak c")
      case True
      from "2.IH"(2) [OF False True] False True show ?thesis by auto
    next
      case nb: False
      from "2.IH"(3) [OF False nb] False nb show ?thesis by auto
    qed
  qed
qed

lemma blank_lines_iff:
  "(\<forall>l \<in> set (splitlines text). strip l = []) \<longleftrightarrow> (\<forall>c \<in> set text. is_space c)"
proof -
  have a: "set (concat (splitlines text)) \<subseteq> set text"
    and b: "set text \<subseteq> set (concat (splitlines text)) \<union> {c. is_linebreak c}"
    using splitlines_from_chars [of "[]" "text"] by (simp_all add: splitlines_def)
  have "(\<forall>l \<in> set (splitlines text). strip l = []) \<longleftrightarrow> (\<forall>c \<in> set (concat (splitlines text)). is_space c)"
    by (auto simp: strip_empty_iff)
  also have "\<dots> \<longleftrightarrow> (\<forall>c \<in> set text. is_space c)"
    using a b linebreak_space by blast
  finally show ?thesis .
qed

lemma first_nonblank:
  "(case filter (\<lambda>ln. ln \<noteq> []) (map strip ls) of [] \<Rightarrow> d | l # _ \<Rightarrow> l) = n \<Longrightarrow>
   (if \<forall>l \<in> set ls. strip l = [] then n = d
    else \<exists>pre ln post. ls = pre @ ln # post \<and> (\<forall>l \<in> set pre. strip l = [])
           \<and> strip ln \<noteq> [] \<and> n = strip ln)"
proof (induction ls)
  case Nil
  then show ?case by simp
next
  case (Cons a ls)
  show ?case
  proof (cases "strip a = []")
    case True
    with Cons.prems have "(case filter (\<lambda>ln. ln \<noteq> []) (map strip ls) of [] \<Rightarrow> d | l # _ \<Rightarrow> l) = n"
      by simp
    from Cons.IH [OF this] show ?thesis
    proof (cases "\<forall>l \<in> set ls. strip l = []")
      case t: True
      with \<open>if \<forall>l \<in> set ls. strip l = [] then n = d else _\<close> True show ?thesis by simp
    next
      case False
      with \<open>if \<forall>l \<in> set ls. strip l = [] then n = d else _\<close>
      obtain pre ln post where p: "ls = pre @ ln # post" "\<forall>l \<in> set pre. strip l = []"
        "strip ln \<noteq> []" "n = strip ln" by auto
      then have "a # ls = (a # pre) @ ln # post" "\<forall>l \<in> set (a # pre). strip l = []"
        using True by auto
      with p(3,4) False show ?thesis by (metis list.set_intros(2))
    qed
  next
    case False
    with Cons.prems have "n = strip a" by simp
    moreover have "a # ls = [] @ a # ls" by simp
    ultimately show ?thesis using False by (metis empty_iff list.set(1) list.set_intros(1))
  qed
qed

lemma parse_candidate_profile_Inr:
  "\<exists>y. extract_experience_years (lower text) = Inr y
     \<and> parse_candidate_profile text =
         Inr \<lparr>name = (case filter (\<lambda>ln. ln \<noteq> []) (map strip (splitlines text)) of
                        [] \<Rightarrow> ''Unknown'' | l # _ \<Rightarrow> l),
              email = extract_email text,
              total_experience_years = y,
              skills = sorted_list_of_set (extract_skills (lower text)),
              titles = sorted_list_of_set (extract_titles (lower text)),
              raw_text = take 5000 text\<rparr>"
proof -
  from extract_experience_years_total [of "lower text"]
  obtain y where y: "extract_experience_years (lower text) = Inr y" by blast
  then show ?thesis
    by (auto simp: parse_candidate_profile_def py_index0_def Let_def split: list.splits)
qed

section \<open>Name\<close>

lemma profile_of:
  obtains p where "parse_candidate_profile text = Inr p"
    and "name p = (case filter (\<lambda>ln. ln \<noteq> []) (map strip (splitlines text)) of
                        [] \<Rightarrow> ''Unknown'' | l # _ \<Rightarrow> l)"
    and "email p = extract_email text"
    and "extract_experience_years (lower text) = Inr (total_experience_years p)"
    and "skills p = sorted_list_of_set (extract_skills (lower text))"
    and "titles p = sorted_list_of_set (extract_titles (lower text))"
    and "raw_text p = take 5000 text"
proof -
  from parse_candidate_profile_Inr [of "text"] obtain y where
    y: "extract_experience_years (lower text) = Inr y"
    and p: "parse_candidate_profile text =
         Inr \<lparr>name = (case filter (\<lambda>ln. ln \<noteq> []) (map strip (splitlines text)) of
                        [] \<Rightarrow> ''Unknown'' | l # _ \<Rightarrow> l),
              email = extract_email text,
              total_experience_years = y,
              skills = sorted_list_of_set (extract_skills (lower text)),
              titles = sorted_list_of_set (extract_titles (lower text)),
              raw_text = take 5000 text\<rparr>" by blast
  show ?thesis by (rule that [OF p]) (simp_all add: y)
qed

text \<open>
  C2, as stated, fails in one direction: a text whose first non-blank line is the word
  \<^verbatim>\<open>Unknown\<close> has a non-blank line and the name \<^verbatim>\<open>Unknown\<close>.
\<close>

theorem parse_name_counterexample:
  "parse_candidate_profile ''Unknown''
     = Inr \<lparr>name = ''Unknown'', email = [], total_experience_years = 0, skills = [],
            titles = [], raw_text = ''Unknown''\<rparr>
   \<and> splitlines ''Unknown'' = [''Unknown'']
   \<and> strip ''Unknown'' = ''Unknown''"
  by code_simp

text \<open>
  C2, amended. If the text has no non-blank line, which is the case exactly when it is
  empty after trimming, the name is \<^verbatim>\<open>Unknown\<close>; otherwise the name is the first
  non-blank line, trimmed (and that line may itself read \<^verbatim>\<open>Unknown\<close>).
\<close>

theorem parse_name_first_nonblank_line:
  "\<exists>p. parse_candidate_profile text = Inr p
     \<and> ((\<forall>l \<in> set (splitlines text). strip l = []) \<longrightarrow> name p = ''Unknown'')
     \<and> (\<not> (\<forall>l \<in> set (splitlines text). strip l = []) \<longrightarrow>
           (\<exists>pre ln post. splitlines text = pre @ ln # post \<and> (\<forall>l \<in> set pre. strip l = [])
              \<and> strip ln \<noteq> [] \<and> name p = strip ln))
     \<and> ((\<forall>l \<in> set (splitlines text). strip l = []) \<longleftrightarrow> strip text = [])"
proof -
  obtain p where p: "parse_candidate_profile text = Inr p"
    and n: "name p = (case filter (\<lambda>ln. ln \<noteq> []) (map strip (splitlines text)) of
                        [] \<Rightarrow> ''Unknown'' | l # _ \<Rightarrow> l)"
    by (rule profile_of)
  from first_nonblank [OF n [symmetric]]
  have f: "if \<forall>l \<in> set (splitlines text). strip l = [] then name p = ''Unknown''
    else \<exists>pre ln post. splitlines text = pre @ ln # post \<and> (\<forall>l \<in> set pre. strip l = [])
           \<and> strip ln \<noteq> [] \<and> name p = strip ln" .
  have b: "(\<forall>l \<in> set (splitlines text). strip l = []) \<longleftrightarrow> strip text = []"
    unfolding blank_lines_iff by (simp add: strip_empty_iff)
  show ?thesis
  proof (cases "\<forall>l \<in> set (splitlines text). strip l = []")
    case True
    with f p b show ?thesis by auto
  next
    case False
    with f have "\<exists>pre ln post. splitlines text = pre @ ln # post \<and> (\<forall>l \<in> set pre. strip l = [])
           \<and> strip ln \<noteq> [] \<and> name p = strip ln" by simp
    with False p b show ?thesis by blast
  qed
qed

lemma parse_name_value:
  "parse_candidate_profile ''  \<newline> Jane Doe \<newline>jane@x.com''
     = Inr \<lparr>name = ''Jane Doe'', email = ''jane@x.com'', total_experience_years = 0, skills = [],
            titles = [], raw_text = ''  \<newline> Jane Doe \<newline>jane@x.com''\<rparr>
   \<and> parse_candidate_profile '' \<newline>  ''
     = Inr \<lparr>name = ''Unknown'', email = [], total_experience_years = 0, skills = [],
            titles = [], raw_text = '' \<newline>  ''\<rparr>
   \<and> splitlines '' \<newline>  '' = ['' '', ''  '']
   \<and> strip '' '' = [] \<and> strip ''  '' = []
   \<and> splitlines ''  \<newline> Jane Doe \<newline>jane@x.com'' = [''  '', '' Jane Doe '', ''jane@x.com'']
   \<and> strip '' Jane Doe '' = ''Jane Doe''"
  by code_simp

theorem parse_name_first_nonblank_line_witness:
  "(\<exists>p. parse_candidate_profile '' \<newline>  '' = Inr p \<and> name p = ''Unknown'')
   \<and> splitlines '' \<newline>  '' = ['' '', ''  ''] \<and> strip '' '' = [] \<and> strip ''  '' = []
   \<and> (\<exists>p. parse_candidate_profile ''  \<newline> Jane Doe \<newline>jane@x.com'' = Inr p \<and> name p = ''Jane Doe'')
   \<and> splitlines ''  \<newline> Jane Doe \<newline>jane@x.com'' = [''  '', '' Jane Doe '', ''jane@x.com'']
   \<and> strip '' Jane Doe '' = ''Jane Doe''"
proof -
  from parse_name_first_nonblank_line [of "'' \<newline>  ''"]
  obtain p where "parse_candidate_profile '' \<newline>  '' = Inr p"
    "(\<forall>l \<in> set (splitlines '' \<newline>  ''). strip l = []) \<longrightarrow> name p = ''Unknown''" by blast
  moreover have "\<forall>l \<in> set (splitlines '' \<newline>  ''). strip l = []"
    using parse_name_value by simp
  ultimately have 1: "\<exists>p. parse_candidate_profile '' \<newline>  '' = Inr p \<and> name p = ''Unknown''"
    by blast
  have 2: "\<exists>p. parse_candidate_profile ''  \<newline> Jane Doe \<newline>jane@x.com'' = Inr p \<and> name p = ''Jane Doe''"
    using parse_name_value by simp
  from 1 2 parse_name_value show ?thesis by simp
qed


section \<open>Skills\<close>

text \<open>
  C8. The skills of the profile are an ascending list without repetition whose elements
  are exactly the keywords that occur as a substring of the lowercased text. Two texts in
  whose lowercased forms the same keywords occur give the same skills, whatever the number
  or the letter case of the occurrences; so do a text and its lowercased form.
\<close>

theorem parse_skills_sorted_distinct:
  "\<exists>p. parse_candidate_profile text = Inr p
     \<and> sorted (skills p) \<and> distinct (skills p)
     \<and> set (skills p) = {k \<in> set SKILL_KEYWORDS. \<exists>pre post. lower text = pre @ k @ post}
     \<and> (\<forall>text2. {k \<in> set SKILL_KEYWORDS. \<exists>pre post. lower text2 = pre @ k @ post}
                   = {k \<in> set SKILL_KEYWORDS. \<exists>pre post. lower text = pre @ k @ post}
           \<longrightarrow> (\<exists>p2. parse_candidate_profile text2 = Inr p2 \<and> skills p2 = skills p))
     \<and> (\<exists>p3. parse_candidate_profile (lower text) = Inr p3 \<and> skills p3 = skills p)"
proof -
  obtain p where p: "parse_candidate_profile text = Inr p"
    and s: "skills p = sorted_list_of_set (extract_skills (lower text))"
    by (rule profile_of)
  have 1: "sorted (skills p)" "distinct (skills p)"
    unfolding s by simp_all
  have 2: "set (skills p) = {k \<in> set SKILL_KEYWORDS. \<exists>pre post. lower text = pre @ k @ post}"
    unfolding s by (simp add: finite_extract_skills) (rule extract_skills_eq)
  have 3: "\<exists>p2. parse_candidate_profile text2 = Inr p2 \<and> skills p2 = skills p"
    if "{k \<in> set SKILL_KEYWORDS. \<exists>pre post. lower text2 = pre @ k @ post}
          = {k \<in> set SKILL_KEYWORDS. \<exists>pre post. lower text = pre @ k @ post}" for text2
  proof -
    obtain p2 where p2: "parse_candidate_profile text2 = Inr p2"
      and s2: "skills p2 = sorted_list_of_set (extract_skills (lower text2))"
      by (rule profile_of)
    from that have "extract_skills (lower text2) = extract_skills (lower text)"
      by (simp only: extract_skills_eq)
    with s s2 p2 show ?thesis by simp
  qed
  have "{k \<in> set SKILL_KEYWORDS. \<exists>pre post. lower (lower text) = pre @ k @ post}
          = {k \<in> set SKILL_KEYWORDS. \<exists>pre post. lower text = pre @ k @ post}"
    by (simp only: lower_idem)
  from 3 [OF this] have 4: "\<exists>p3. parse_candidate_profile (lower text) = Inr p3 \<and> skills p3 = skills p" .
  show ?thesis
    apply (rule exI [of _ p])
    apply (intro conjI allI impI)
         apply (rule p)
        apply (rule 1)
       apply (rule 1)
      apply (rule 2)
     apply (erule 3)
    apply (rule 4)
    done
qed

lemma parse_skills_value:
  "parse_candidate_profile ''Python, python and PYTHON; Node.js''
     = Inr \<lparr>name = ''Python, python and PYTHON; Node.js'', email = [],
            total_experience_years = 0, skills = [''node'', ''node.js'', ''python''],
            titles = [], raw_text = ''Python, python and PYTHON; Node.js''\<rparr>"
  by code_simp

theorem parse_skills_sorted_distinct_witness:
  "\<exists>p. parse_candidate_profile ''Python, python and PYTHON; Node.js'' = Inr p
     \<and> skills p = [''node'', ''node.js'', ''python''] \<and> sorted (skills p) \<and> distinct (skills p)"
proof -
  from parse_skills_sorted_distinct [of "''Python, python and PYTHON; Node.js''"]
  obtain p where p: "parse_candidate_profile ''Python, python and PYTHON; Node.js'' = Inr p"
    "sorted (skills p)" "distinct (skills p)" by blast
  have "skills p = [''node'', ''node.js'', ''python'']"
    using p(1) [unfolded parse_skills_value, THEN Inr_inject, symmetric] by simp
  with p show ?thesis by (intro exI [of _ p] conjI)
qed

section \<open>Email\<close>

lemma lang_Rep: "w \<in> lang (Rep p n) \<longleftrightarrow> n \<le> length w \<and> list_all p w"
  by simp
lemma lang_Cat: "w \<in> lang (Cat r1 r2) \<longleftrightarrow> (\<exists>u v. w = u @ v \<and> u \<in> lang r1 \<and> v \<in> lang r2)"
  by auto
lemma lang_Str: "w \<in> lang (Str x) \<longleftrightarrow> w = x"
  by simp
lemma lang_Opt: "w \<in> lang (Opt r) \<longleftrightarrow> w = [] \<or> w \<in> lang r"
  by simp

lemma lang_email_pattern:
  "w \<in> lang email_pattern \<longleftrightarrow>
     (\<exists>l d t. w = l @ ''@'' @ d @ ''.'' @ t \<and> l \<noteq> [] \<and> list_all is_local l
        \<and> d \<noteq> [] \<and> list_all is_domain d \<and> 2 \<le> length t \<and> list_all is_alpha t)"
proof
  assume "w \<in> lang email_pattern"
  then obtain l v1 where 1: "w = l @ v1" "1 \<le> length l" "list_all is_local l"
    and "v1 \<in> lang (Cat (Str ''@'') (Cat (Rep is_domain 1) (Cat (Str ''.'') (Rep is_alpha 2))))"
    unfolding email_pattern_def lang_Cat [of w] lang_Rep by blast
  then obtain v2 where 2: "v1 = ''@'' @ v2"
    and "v2 \<in> lang (Cat (Rep is_domain 1) (Cat (Str ''.'') (Rep is_alpha 2)))"
    unfolding lang_Cat [of v1] lang_Str by blast
  then obtain d v3 where 3: "v2 = d @ v3" "1 \<le> length d" "list_all is_domain d"
    and "v3 \<in> lang (Cat (Str ''.'') (Rep is_alpha 2))"
    unfolding lang_Cat [of v2] lang_Rep by blast
  then obtain t where 4: "v3 = ''.'' @ t" "2 \<le> length t" "list_all is_alpha t"
    unfolding lang_Cat [of v3] lang_Str lang_Rep by blast
  from 1 3 have "l \<noteq> []" "d \<noteq> []" by auto
  moreover from 1 2 3 4 have "w = l @ ''@'' @ d @ ''.'' @ t" by simp
  ultimately show "\<exists>l d t. w = l @ ''@'' @ d @ ''.'' @ t \<and> l \<noteq> [] \<and> list_all is_local l
        \<and> d \<noteq> [] \<and> list_all is_domain d \<and> 2 \<le> length t \<and> list_all is_alpha t"
    using 1 3 4 by blast
next
  assume "\<exists>l d t. w = l @ ''@'' @ d @ ''.'' @ t \<and> l \<noteq> [] \<and> list_all is_local l
        \<and> d \<noteq> [] \<and> list_all is_domain d \<and> 2 \<le> length t \<and> list_all is_alpha t"
  then obtain l d t where h: "w = l @ ''@'' @ d @ ''.'' @ t" "l \<noteq> []" "list_all is_local l"
        "d \<noteq> []" "list_all is_domain d" "2 \<le> length t" "list_all is_alpha t" by blast
  have a: "t \<in> lang (Rep is_alpha 2)" using h by simp
  have b: "''.'' @ t \<in> lang (Cat (Str ''.'') (Rep is_alpha 2))"
    unfolding lang_Cat lang_Str using a by blast
  have c: "d \<in> lang (Rep is_domain 1)" using h by (simp add: Suc_le_eq)
  have d: "d @ ''.'' @ t \<in> lang (Cat (Rep is_domain 1) (Cat (Str ''.'') (Rep is_alpha 2)))"
    unfolding lang_Cat [of "d @ ''.'' @ t"] using b c by blast
  have e: "''@'' @ d @ ''.'' @ t
     \<in> lang (Cat (Str ''@'') (Cat (Rep is_domain 1) (Cat (Str ''.'') (Rep is_alpha 2))))"
    unfolding lang_Cat [of "''@'' @ d @ ''.'' @ t"] lang_Str using d by blast
  have f: "l \<in> lang (Rep is_local 1)" using h by (simp add: Suc_le_eq)
  show "w \<in> lang email_pattern"
    unfolding email_pattern_def h(1) lang_Cat [of "l @ ''@'' @ d @ ''.'' @ t"] using e f by blast
qed

lemma email_example:
  "extract_email ''contact: a.b+c@sub.example.co'' = ''a.b+c@sub.example.co''
   \<and> extract_email ''Mail A.B@X.Example.ORG now'' = ''A.B@X.Example.ORG''
   \<and> extract_email ''no address here'' = []"
  by code_simp

text \<open>
  C7. The email of the profile is searched in the text as given, not in its lowercased
  form. If no substring of the text has the form local part, \<^verbatim>\<open>@\<close>, domain, dot, two or
  more letters, the result is empty; otherwise the result is such a substring, and no
  substring of that form starts earlier in the text. The text
  \<^verbatim>\<open>contact: a.b+c@sub.example.co\<close> gives \<^verbatim>\<open>a.b+c@sub.example.co\<close>.
\<close>

theorem extract_email_first_match:
  "\<exists>p. parse_candidate_profile text = Inr p \<and> email p = extract_email text
     \<and> (\<not> (\<exists>pre w post. w \<in> lang email_pattern \<and> text = pre @ w @ post)
           \<longrightarrow> extract_email text = [])
     \<and> ((\<exists>pre w post. w \<in> lang email_pattern \<and> text = pre @ w @ post) \<longrightarrow>
           extract_email text \<in> lang email_pattern
           \<and> (\<exists>pre post. text = pre @ extract_email text @ post
                 \<and> (\<forall>pre' w post'. w \<in> lang email_pattern \<and> text = pre' @ w @ post'
                        \<longrightarrow> length pre \<le> length pre')))
     \<and> (\<forall>w. w \<in> lang email_pattern \<longleftrightarrow>
           (\<exists>l d t. w = l @ ''@'' @ d @ ''.'' @ t \<and> l \<noteq> [] \<and> list_all is_local l
              \<and> d \<noteq> [] \<and> list_all is_domain d \<and> 2 \<le> length t \<and> list_all is_alpha t))
     \<and> extract_email ''contact: a.b+c@sub.example.co'' = ''a.b+c@sub.example.co''"
proof -
  obtain p where p: "parse_candidate_profile text = Inr p" and e: "email p = extract_email text"
    by (rule profile_of)
  have 1: "extract_email text = []"
    if "\<not> (\<exists>pre w post. w \<in> lang email_pattern \<and> text = pre @ w @ post)"
  proof -
    from that have "re_search email_pattern text = None" using re_search_None_iff by blast
    then show ?thesis by (simp add: extract_email_def)
  qed
  have 2: "extract_email text \<in> lang email_pattern
           \<and> (\<exists>pre post. text = pre @ extract_email text @ post
                 \<and> (\<forall>pre' w post'. w \<in> lang email_pattern \<and> text = pre' @ w @ post'
                        \<longrightarrow> length pre \<le> length pre'))"
    if "\<exists>pre w post. w \<in> lang email_pattern \<and> text = pre @ w @ post"
  proof -
    from that have "re_search email_pattern text \<noteq> None" using re_search_None_iff by blast
    then obtain m where m: "re_search email_pattern text = Some m" by auto
    then have em: "extract_email text = m" by (simp add: extract_email_def)
    from re_search_Some [OF m] obtain pre post where a: "text = pre @ m @ post"
      and b: "m \<in> lang email_pattern"
      and c: "\<forall>pre' w post'. w \<in> lang email_pattern \<and> text = pre' @ w @ post'
                        \<longrightarrow> length pre \<le> length pre'"
      by (elim exE conjE) (rule that; assumption)
    show ?thesis unfolding em
      by (intro conjI exI [of _ pre] exI [of _ post]) (rule b, rule a, rule c)
  qed
  have 3: "\<forall>w. w \<in> lang email_pattern \<longleftrightarrow>
           (\<exists>l d t. w = l @ ''@'' @ d @ ''.'' @ t \<and> l \<noteq> [] \<and> list_all is_local l
              \<and> d \<noteq> [] \<and> list_all is_domain d \<and> 2 \<le> length t \<and> list_all is_alpha t)"
    using lang_email_pattern by blast
  have 4: "extract_email ''contact: a.b+c@sub.example.co'' = ''a.b+c@sub.example.co''"
    using email_example by (rule conjunct1)
  show ?thesis
    apply (rule exI [of _ p])
    apply (intro conjI impI)
         apply (rule p)
        apply (rule e)
       apply (erule 1)
      apply (erule 2 [THEN conjunct1])
     apply (erule 2 [THEN conjunct2])
    apply (rule 3)
    apply (rule 4)
    done
qed


theorem extract_email_first_match_witness:
  "(\<exists>p. parse_candidate_profile ''Mail A.B@X.Example.ORG now'' = Inr p
        \<and> email p = ''A.B@X.Example.ORG'')
   \<and> ''A.B@X.Example.ORG'' \<in> lang email_pattern
   \<and> (\<exists>p. parse_candidate_profile ''no address here'' = Inr p \<and> email p = [])"
proof -
  let ?t = "''Mail A.B@X.Example.ORG now''"
  from extract_email_first_match [of ?t]
  obtain p where p: "parse_candidate_profile ?t = Inr p" "email p = extract_email ?t"
    and h: "(\<exists>pre w post. w \<in> lang email_pattern \<and> ?t = pre @ w @ post) \<longrightarrow>
           extract_email ?t \<in> lang email_pattern
           \<and> (\<exists>pre post. ?t = pre @ extract_email ?t @ post
                 \<and> (\<forall>pre' w post'. w \<in> lang email_pattern \<and> ?t = pre' @ w @ post'
                        \<longrightarrow> length pre \<le> length pre'))"
    by (elim exE conjE) (rule that; assumption)
  have m: "''A.B@X.Example.ORG'' \<in> lang email_pattern"
    unfolding lang_email_pattern
    by (rule exI [of _ "''A.B''"], rule exI [of _ "''X.Example''"], rule exI [of _ "''ORG''"])
       (simp add: is_local_def is_domain_def is_alpha_def is_digit_def)
  have "?t = ''Mail '' @ ''A.B@X.Example.ORG'' @ '' now''" by simp
  with m have "\<exists>pre w post. w \<in> lang email_pattern \<and> ?t = pre @ w @ post" by (intro exI conjI)
  with h have 1: "extract_email ?t \<in> lang email_pattern" by (elim impE conjE)
  from extract_email_first_match [of "''no address here''"]
  obtain q where q: "parse_candidate_profile ''no address here'' = Inr q"
    "email q = extract_email ''no address here''"
    by (elim exE conjE) (rule that; assumption)
  have v1: "extract_email ?t = ''A.B@X.Example.ORG''"
    using email_example by (elim conjE)
  have v2: "extract_email ''no address here'' = []"
    using email_example by (elim conjE)
  have a: "\<exists>p. parse_candidate_profile ?t = Inr p \<and> email p = ''A.B@X.Example.ORG''"
    using p v1 by (intro exI [of _ p]) simp
  have b: "''A.B@X.Example.ORG'' \<in> lang email_pattern"
    using 1 unfolding v1 .
  have c: "\<exists>p. parse_candidate_profile ''no address here'' = Inr p \<and> email p = []"
    using q v2 by (intro exI [of _ q]) simp
  from a b c show ?thesis by (intro conjI)
qed


section \<open>Experience\<close>

text \<open>
  C6, as stated, fails: in \<^verbatim>\<open>5 + years\<close> white space stands between the number and
  the \<^verbatim>\<open>+\<close>, so the text has no occurrence of a number followed by an optional
  \<^verbatim>\<open>+\<close>, optional white space and \<^verbatim>\<open>year\<close>; the source's pattern allows white
  space on both sides of the \<^verbatim>\<open>+\<close> and the result is 5, not 0.
\<close>

theorem experience_pattern_counterexample:
  "re_findall number_group years_tail_spec ''5 + years'' = []
   \<and> extract_experience_years ''5 + years'' = Inr 5
   \<and> parse_candidate_profile ''5 + years''
       = Inr \<lparr>name = ''5 + years'', email = [], total_experience_years = 5, skills = [],
              titles = [], raw_text = ''5 + years''\<rparr>"
  by code_simp

lemma lang_years_tail:
  "v \<in> lang years_tail \<longleftrightarrow>
     (\<exists>w1 pl w2 s. list_all is_space w1 \<and> (pl = [] \<or> pl = ''+'') \<and> list_all is_space w2
        \<and> (s = [] \<or> s = ''s'') \<and> v = w1 @ pl @ w2 @ ''year'' @ s)"
proof
  assume "v \<in> lang years_tail"
  then obtain w1 v1 where 1: "v = w1 @ v1" "list_all is_space w1"
    and "v1 \<in> lang (Cat (Opt (Str ''+'')) (Cat (Rep is_space 0) (Cat (Str ''year'') (Opt (Str ''s'')))))"
    unfolding years_tail_def lang_Cat [of v] lang_Rep by blast
  then obtain pl v2 where 2: "v1 = pl @ v2" "pl = [] \<or> pl = ''+''"
    and "v2 \<in> lang (Cat (Rep is_space 0) (Cat (Str ''year'') (Opt (Str ''s''))))"
    unfolding lang_Cat [of v1] lang_Opt lang_Str by blast
  then obtain w2 v3 where 3: "v2 = w2 @ v3" "list_all is_space w2"
    and "v3 \<in> lang (Cat (Str ''year'') (Opt (Str ''s'')))"
    unfolding lang_Cat [of v2] lang_Rep by blast
  then obtain s where 4: "v3 = ''year'' @ s" "s = [] \<or> s = ''s''"
    unfolding lang_Cat [of v3] lang_Opt lang_Str by blast
  from 1 2 3 4 have "v = w1 @ pl @ w2 @ ''year'' @ s" by simp
  with 1 2 3 4 show "\<exists>w1 pl w2 s. list_all is_space w1 \<and> (pl = [] \<or> pl = ''+'') \<and> list_all is_space w2
        \<and> (s = [] \<or> s = ''s'') \<and> v = w1 @ pl @ w2 @ ''year'' @ s" by blast
next
  assume "\<exists>w1 pl w2 s. list_all is_space w1 \<and> (pl = [] \<or> pl = ''+'') \<and> list_all is_space w2
        \<and> (s = [] \<or> s = ''s'') \<and> v = w1 @ pl @ w2 @ ''year'' @ s"
  then obtain w1 pl w2 s where h: "list_all is_space w1" "pl = [] \<or> pl = ''+''"
    "list_all is_space w2" "s = [] \<or> s = ''s''" "v = w1 @ pl @ w2 @ ''year'' @ s" by blast
  have a: "''year'' @ s \<in> lang (Cat (Str ''year'') (Opt (Str ''s'')))"
    unfolding lang_Cat [of "''year'' @ s"] lang_Opt lang_Str using h(4) by blast
  have b: "w2 \<in> lang (Rep is_space 0)" using h(3) by simp
  have c: "w2 @ ''year'' @ s \<in> lang (Cat (Rep is_space 0) (Cat (Str ''year'') (Opt (Str ''s''))))"
    unfolding lang_Cat [of "w2 @ ''year'' @ s"] using a b by blast
  have d: "pl \<in> lang (Opt (Str ''+''))" unfolding lang_Opt lang_Str using h(2) .
  have e: "pl @ w2 @ ''year'' @ s
     \<in> lang (Cat (Opt (Str ''+'')) (Cat (Rep is_space 0) (Cat (Str ''year'') (Opt (Str ''s'')))))"
    unfolding lang_Cat [of "pl @ w2 @ ''year'' @ s"] using c d by blast
  have f: "w1 \<in> lang (Rep is_space 0)" using h(1) by simp
  show "v \<in> lang years_tail"
    unfolding years_tail_def h(5) lang_Cat [of "w1 @ pl @ w2 @ ''year'' @ s"] using e f by blast
qed

lemma experience_example:
  "extract_experience_years ''3 years... 5+ years'' = Inr 5
   \<and> extract_experience_years ''no pattern here'' = Inr 0
   \<and> re_findall number_group years_tail ''3 years... 5+ years'' = [''3'', ''5'']
   \<and> re_findall number_group years_tail ''no pattern here'' = []"
  by code_simp

text \<open>
  C6, amended. The experience of the profile is computed on the lowercased text. The
  matches are occurrences of a number (digits, optionally a dot and digits) followed by
  optional white space, an optional \<^verbatim>\<open>+\<close>, optional white space and \<^verbatim>\<open>year\<close> or
  \<^verbatim>\<open>years\<close>; there is a match exactly when there is such an occurrence. Every matched
  number converts to a value; the result is 0 when there is no match and otherwise one of
  these values that is at least as large as all of them. \<^verbatim>\<open>3 years... 5+ years\<close> gives 5.
\<close>

theorem experience_years_max_of_matches:
  "\<exists>p ys. parse_candidate_profile text = Inr p
     \<and> floats (re_findall number_group years_tail (lower text)) = Inr ys
     \<and> length ys = length (re_findall number_group years_tail (lower text))
     \<and> (\<forall>i < length ys.
           py_float (re_findall number_group years_tail (lower text) ! i) = Inr (ys ! i))
     \<and> (\<forall>m \<in> set (re_findall number_group years_tail (lower text)).
           occurs number_group years_tail (lower text) m)
     \<and> (ys = [] \<longleftrightarrow> \<not> (\<exists>m. occurs number_group years_tail (lower text) m))
     \<and> (ys = [] \<longrightarrow> total_experience_years p = 0)
     \<and> (ys \<noteq> [] \<longrightarrow>
           total_experience_years p \<in> set ys \<and> (\<forall>y \<in> set ys. y \<le> total_experience_years p))
     \<and> (\<forall>w. w \<in> lang number_group \<longleftrightarrow>
           (\<exists>ds. ds \<noteq> [] \<and> list_all is_digit ds \<and>
              (w = ds \<or> (\<exists>fs. fs \<noteq> [] \<and> list_all is_digit fs \<and> w = ds @ CHR ''.'' # fs))))
     \<and> (\<forall>v. v \<in> lang years_tail \<longleftrightarrow>
           (\<exists>w1 pl w2 s. list_all is_space w1 \<and> (pl = [] \<or> pl = ''+'') \<and> list_all is_space w2
              \<and> (s = [] \<or> s = ''s'') \<and> v = w1 @ pl @ w2 @ ''year'' @ s))
     \<and> extract_experience_years ''3 years... 5+ years'' = Inr 5"
proof -
  let ?ms = "re_findall number_group years_tail (lower text)"
  obtain p where p: "parse_candidate_profile text = Inr p"
    and t: "extract_experience_years (lower text) = Inr (total_experience_years p)"
    by (rule profile_of)
  from extract_experience_years_total [of "lower text"] obtain ys where
    1: "floats ?ms = Inr ys" and 2: "length ys = length ?ms"
    and 3: "\<forall>i < length ys. py_float (?ms ! i) = Inr (ys ! i)"
    and v: "extract_experience_years (lower text) = Inr (if ys = [] then 0 else Max (set ys))"
    by (elim exE conjE) (rule that; assumption)
  from t v have tv: "total_experience_years p = (if ys = [] then 0 else Max (set ys))" by simp
  have 4: "\<forall>m \<in> set ?ms. occurs number_group years_tail (lower text) m"
    using re_findall_occurs by blast
  have "ys = [] \<longleftrightarrow> ?ms = []" using 2 by auto
  then have 5: "ys = [] \<longleftrightarrow> \<not> (\<exists>m. occurs number_group years_tail (lower text) m)"
    by (simp only: re_findall_Nil_iff)
  have 6: "ys = [] \<longrightarrow> total_experience_years p = 0" using tv by simp
  have 7: "ys \<noteq> [] \<longrightarrow>
           total_experience_years p \<in> set ys \<and> (\<forall>y \<in> set ys. y \<le> total_experience_years p)"
    using tv by (auto intro: Max_in)
  have 8: "\<forall>w. w \<in> lang number_group \<longleftrightarrow>
           (\<exists>ds. ds \<noteq> [] \<and> list_all is_digit ds \<and>
              (w = ds \<or> (\<exists>fs. fs \<noteq> [] \<and> list_all is_digit fs \<and> w = ds @ CHR ''.'' # fs)))"
    using lang_number_group by blast
  have 9: "\<forall>v. v \<in> lang years_tail \<longleftrightarrow>
           (\<exists>w1 pl w2 s. list_all is_space w1 \<and> (pl = [] \<or> pl = ''+'') \<and> list_all is_space w2
              \<and> (s = [] \<or> s = ''s'') \<and> v = w1 @ pl @ w2 @ ''year'' @ s)"
    using lang_years_tail by blast
  have 10: "extract_experience_years ''3 years... 5+ years'' = Inr 5"
    using experience_example by (rule conjunct1)
  show ?thesis
    apply (rule exI [of _ p])
    apply (rule exI [of _ ys])
    apply (intro conjI)
              apply (rule p)
             apply (rule 1)
            apply (rule 2)
           apply (rule 3)
          apply (rule 4)
         apply (rule 5)
        apply (rule 6)
       apply (rule 7)
      apply (rule 8)
     apply (rule 9)
    apply (rule 10)
    done
qed

lemma experience_value:
  "parse_candidate_profile ''3 Years... 5+ YEARS''
     = Inr \<lparr>name = ''3 Years... 5+ YEARS'', email = [], total_experience_years = 5,
            skills = [], titles = [], raw_text = ''3 Years... 5+ YEARS''\<rparr>
   \<and> floats (re_findall number_group years_tail (lower ''3 Years... 5+ YEARS'')) = Inr [3, 5]
   \<and> parse_candidate_profile ''no pattern here''
     = Inr \<lparr>name = ''no pattern here'', email = [], total_experience_years = 0,
            skills = [], titles = [], raw_text = ''no pattern here''\<rparr>
   \<and> floats (re_findall number_group years_tail (lower ''no pattern here'')) = Inr []"
  by code_simp

theorem experience_years_max_of_matches_witness:
  "(\<exists>p. parse_candidate_profile ''3 Years... 5+ YEARS'' = Inr p \<and> total_experience_years p = 5)
   \<and> floats (re_findall number_group years_tail (lower ''3 Years... 5+ YEARS'')) = Inr [3, 5]
   \<and> (\<exists>p. parse_candidate_profile ''no pattern here'' = Inr p \<and> total_experience_years p = 0)
   \<and> floats (re_findall number_group years_tail (lower ''no pattern here'')) = Inr []"
proof -
  let ?t = "''3 Years... 5+ YEARS''" and ?u = "''no pattern here''"
  from experience_years_max_of_matches [of ?t]
  obtain p ys where p: "parse_candidate_profile ?t = Inr p"
    and ys: "floats (re_findall number_group years_tail (lower ?t)) = Inr ys"
    and mx: "ys \<noteq> [] \<longrightarrow>
           total_experience_years p \<in> set ys \<and> (\<forall>y \<in> set ys. y \<le> total_experience_years p)"
    by (elim exE conjE) (rule that; assumption)
  have f1: "floats (re_findall number_group years_tail (lower ?t)) = Inr [3, 5]"
    using experience_value by (elim conjE)
  from ys f1 have "ys = [3, 5]" by simp
  with mx have "total_experience_years p = 5" by auto
  with p have a: "\<exists>p. parse_candidate_profile ?t = Inr p \<and> total_experience_years p = 5"
    by (intro exI [of _ p] conjI)
  from experience_years_max_of_matches [of ?u]
  obtain q zs where q: "parse_candidate_profile ?u = Inr q"
    and zs: "floats (re_findall number_group years_tail (lower ?u)) = Inr zs"
    and z: "zs = [] \<longrightarrow> total_experience_years q = 0"
    by (elim exE conjE) (rule that; assumption)
  have f2: "floats (re_findall number_group years_tail (lower ?u)) = Inr []"
    using experience_value by (elim conjE)
  from zs f2 have "zs = []" by simp
  with z have "total_experience_years q = 0" by simp
  with q have b: "\<exists>p. parse_candidate_profile ?u = Inr p \<and> total_experience_years p = 0"
    by (intro exI [of _ q] conjI)
  from a f1 b f2 show ?thesis by (intro conjI)
qed

section \<open>Totality of the parser\<close>

lemma parse_empty_value:
  "parse_candidate_profile []
     = Inr \<lparr>name = ''Unknown'', email = [], total_experience_years = 0, skills = [],
            titles = [], raw_text = []\<rparr>
   \<and> parse_candidate_profile ''   ''
     = Inr \<lparr>name = ''Unknown'', email = [], total_experience_years = 0, skills = [],
            titles = [], raw_text = ''   ''\<rparr>"
  by code_simp

text \<open>
  C4. On every text the parser returns a profile and raises nothing: the indexing, the
  conversions to numbers and the maximum, which can fail, never do on what the parser
  passes them. The raw text is the first 5000 characters; the name is \<^verbatim>\<open>Unknown\<close> when
  no line is non-blank, the email empty when no substring has the form of an address, the
  experience 0 when the pattern does not occur, the skills and the titles empty when no
  keyword occurs. The empty text gives all of these defaults.
\<close>

theorem parse_candidate_profile_total:
  "\<exists>p. parse_candidate_profile text = Inr p
     \<and> raw_text p = take 5000 text
     \<and> ((\<forall>l \<in> set (splitlines text). strip l = []) \<longrightarrow> name p = ''Unknown'')
     \<and> (\<not> (\<exists>pre w post. w \<in> lang email_pattern \<and> text = pre @ w @ post) \<longrightarrow> email p = [])
     \<and> (\<not> (\<exists>m. occurs number_group years_tail (lower text) m)
           \<longrightarrow> total_experience_years p = 0)
     \<and> ((\<forall>k \<in> set SKILL_KEYWORDS. \<not> contains k (lower text)) \<longrightarrow> skills p = [])
     \<and> ((\<forall>l \<in> set (splitlines (lower text)). \<forall>w \<in> set title_keywords. \<not> contains w l)
           \<longrightarrow> titles p = [])
     \<and> parse_candidate_profile []
         = Inr \<lparr>name = ''Unknown'', email = [], total_experience_years = 0, skills = [],
                titles = [], raw_text = []\<rparr>"
proof -
  obtain p where p: "parse_candidate_profile text = Inr p"
    and n: "name p = (case filter (\<lambda>ln. ln \<noteq> []) (map strip (splitlines text)) of
                        [] \<Rightarrow> ''Unknown'' | l # _ \<Rightarrow> l)"
    and e: "email p = extract_email text"
    and x: "extract_experience_years (lower text) = Inr (total_experience_years p)"
    and s: "skills p = sorted_list_of_set (extract_skills (lower text))"
    and t: "titles p = sorted_list_of_set (extract_titles (lower text))"
    and r: "raw_text p = take 5000 text"
    by (rule profile_of)
  have 1: "name p = ''Unknown''" if "\<forall>l \<in> set (splitlines text). strip l = []"
    using first_nonblank [OF n [symmetric]] that by simp
  have 2: "email p = []"
    if "\<not> (\<exists>pre w post. w \<in> lang email_pattern \<and> text = pre @ w @ post)"
  proof -
    from that have "re_search email_pattern text = None" using re_search_None_iff by blast
    then show ?thesis by (simp add: e extract_email_def)
  qed
  have 3: "total_experience_years p = 0"
    if "\<not> (\<exists>m. occurs number_group years_tail (lower text) m)"
  proof -
    from that have "re_findall number_group years_tail (lower text) = []"
      using re_findall_Nil_iff by blast
    then have "extract_experience_years (lower text) = Inr 0"
      by (simp add: extract_experience_years_def)
    with x show ?thesis by simp
  qed
  have 4: "skills p = []" if "\<forall>k \<in> set SKILL_KEYWORDS. \<not> contains k (lower text)"
  proof -
    from that have "extract_skills (lower text) = {}"
      unfolding extract_skills_eq contains_iff by blast
    then show ?thesis by (simp add: s)
  qed
  have 5: "titles p = []"
    if "\<forall>l \<in> set (splitlines (lower text)). \<forall>w \<in> set title_keywords. \<not> contains w l"
  proof -
    from that have "extract_titles (lower text) = {}"
      unfolding extract_titles_eq contains_iff by blast
    then show ?thesis by (simp add: t)
  qed
  have 6: "parse_candidate_profile []
         = Inr \<lparr>name = ''Unknown'', email = [], total_experience_years = 0, skills = [],
                titles = [], raw_text = []\<rparr>"
    using parse_empty_value by (rule conjunct1)
  show ?thesis
    apply (rule exI [of _ p])
    apply (intro conjI impI)
           apply (rule p)
          apply (rule r)
         apply (erule 1)
        apply (erule 2)
       apply (erule 3)
      apply (erule 4)
     apply (erule 5)
    apply (rule 6)
    done
qed

theorem parse_candidate_profile_total_witness:
  "\<exists>p. parse_candidate_profile ''   '' = Inr p
     \<and> name p = ''Unknown'' \<and> email p = [] \<and> total_experience_years p = 0
     \<and> skills p = [] \<and> titles p = [] \<and> raw_text p = ''   ''"
proof -
  from parse_candidate_profile_total [of "''   ''"]
  obtain p where p: "parse_candidate_profile ''   '' = Inr p"
    and k: "(\<forall>k \<in> set SKILL_KEYWORDS. \<not> contains k (lower ''   '')) \<longrightarrow> skills p = []"
    by (elim exE conjE) (rule that; assumption)
  have "\<forall>k \<in> set SKILL_KEYWORDS. \<not> contains k (lower ''   '')"
    by code_simp
  with k have s: "skills p = []" by (rule mp)
  have v: "p = \<lparr>name = ''Unknown'', email = [], total_experience_years = 0, skills = [],
            titles = [], raw_text = ''   ''\<rparr>"
    using p [unfolded parse_empty_value [THEN conjunct2], THEN Inr_inject, symmetric] .
  show ?thesis
    apply (rule exI [of _ p])
    apply (intro conjI)
          apply (rule p)
         apply (simp_all add: v)
    done
qed


section \<open>Queue records without bucket or key\<close>











section \<open>Creating a job without a body\<close>

lemma create_job_empty: "create_job env (PDict []) st = Inr (response' 400 (Message ''title is required''), st)"
  by (simp add: create_job_def py_get_def truthy_def)

lemma parse_body_empty:
  "body_str = None \<or> body_str = Some [] \<or>
     (\<exists>s. body_str = Some s \<and> api_json_loads env s = Inl JSONDecodeError)
   \<Longrightarrow> parse_body env body_str = Inr (PDict [])"
  by (auto simp: parse_body_def)

lemma parse_body_raises:
  "s \<noteq> [] \<Longrightarrow> api_json_loads env s = Inl e \<Longrightarrow> e \<noteq> JSONDecodeError
   \<Longrightarrow> parse_body env (Some s) = Inl e"
  by (cases e) (simp_all add: parse_body_def)

lemma deep_brackets_facts: "deep_brackets \<noteq> []" "deep_brackets \<noteq> ''{}''"
proof -
  have l: "length deep_brackets = 100000" by (simp add: deep_brackets_def)
  show "deep_brackets \<noteq> []" using l by auto
  show "deep_brackets \<noteq> ''{}''"
  proof
    assume "deep_brackets = ''{}''"
    then have "length deep_brackets = length ''{}''" by (rule arg_cong)
    with l show False by simp
  qed
qed

lemma demo_api_facts:
  "startswith ''/jobs'' ''/jobs'' \<and> upper ''post'' = ''POST''
   \<and> api_json_loads demo_api_env ''{title: '' = Inl JSONDecodeError
   \<and> api_tables_configured demo_api_env"
proof -
  have "''{title: '' \<noteq> deep_brackets"
  proof
    assume "''{title: '' = deep_brackets"
    then have "length ''{title: '' = length deep_brackets" by (rule arg_cong)
    then show False by (simp add: deep_brackets_def)
  qed
  moreover have "startswith ''/jobs'' ''/jobs''" "upper ''post'' = ''POST''"
    by code_simp+
  ultimately show ?thesis by (simp add: demo_api_env_def)
qed

lemma demo_api_deep: "api_json_loads demo_api_env deep_brackets = Inl RecursionError"
  using deep_brackets_facts by (simp add: demo_api_env_def)

text \<open>
  C10, as stated, fails on a body that is not valid JSON and on which the decoder
  raises an exception other than \<^verbatim>\<open>JSONDecodeError\<close>: \<^verbatim>\<open>_parse_body\<close> does not catch it,
  and the handler answers with status 500.
\<close>

theorem undecodable_body_counterexample:
  "api_json_loads demo_api_env deep_brackets = Inl RecursionError
   \<and> api_statusCode (fst (api_lambda_handler demo_api_env
       \<lparr>path = Some ''/jobs'', resource = None, httpMethod = Some ''POST'',
        request_body = Some deep_brackets\<rparr>
       \<lparr>api_job_table = [], api_candidate_table = [], api_uuid_calls = 0\<rparr>)) = 500
   \<and> api_body (fst (api_lambda_handler demo_api_env
       \<lparr>path = Some ''/jobs'', resource = None, httpMethod = Some ''POST'',
        request_body = Some deep_brackets\<rparr>
       \<lparr>api_job_table = [], api_candidate_table = [], api_uuid_calls = 0\<rparr>))
       = InternalError RecursionError"
proof -
  have u: "upper ''POST'' = ''POST''" by code_simp
  have p: "parse_body demo_api_env (Some deep_brackets) = Inl RecursionError"
    using deep_brackets_facts(1) demo_api_deep by (rule parse_body_raises) simp
  have c: "api_tables_configured demo_api_env" by (simp add: demo_api_env_def)
  have "api_lambda_handler demo_api_env
       \<lparr>path = Some ''/jobs'', resource = None, httpMethod = Some ''POST'',
        request_body = Some deep_brackets\<rparr>
       \<lparr>api_job_table = [], api_candidate_table = [], api_uuid_calls = 0\<rparr>
     = (response' 500 (InternalError RecursionError),
        \<lparr>api_job_table = [], api_candidate_table = [], api_uuid_calls = 0\<rparr>)"
    by (simp add: api_lambda_handler_def c u route_def p)
  with demo_api_deep show ?thesis by (simp add: response'_def)
qed

text \<open>
  C10, amended. With configured tables, take a request whose path starts with
  \<^verbatim>\<open>/jobs\<close> and whose method is \<^verbatim>\<open>POST\<close> in any letter case. If its body is absent,
  empty or rejected by \<^verbatim>\<open>json.loads\<close> with a \<^verbatim>\<open>JSONDecodeError\<close>, the body is read as the
  empty object and the answer is status 400 with the message \<^verbatim>\<open>title is required\<close>. If
  \<^verbatim>\<open>json.loads\<close> raises another exception on the body, the answer is status 500. The
  tables are unchanged in both cases.
\<close>

theorem create_job_without_body:
  assumes "api_tables_configured env"
    and "path event = Some p" and "startswith p ''/jobs''"
    and "httpMethod event = Some m" and "upper m = ''POST''"
  shows "(request_body event = None \<or> request_body event = Some [] \<or>
            (\<exists>s. request_body event = Some s \<and> api_json_loads env s = Inl JSONDecodeError)
          \<longrightarrow> parse_body env (request_body event) = Inr (PDict [])
              \<and> api_statusCode (fst (api_lambda_handler env event st)) = 400
              \<and> api_body (fst (api_lambda_handler env event st)) = Message ''title is required''
              \<and> snd (api_lambda_handler env event st) = st)
     \<and> (\<forall>s e. request_body event = Some s \<and> s \<noteq> [] \<and> api_json_loads env s = Inl e
                \<and> e \<noteq> JSONDecodeError
          \<longrightarrow> api_statusCode (fst (api_lambda_handler env event st)) = 500
              \<and> api_body (fst (api_lambda_handler env event st)) = InternalError e
              \<and> snd (api_lambda_handler env event st) = st)"
proof (intro conjI impI allI)
  from assms(3) have ne: "p \<noteq> []" by auto
  {
    assume a: "request_body event = None \<or> request_body event = Some [] \<or>
            (\<exists>s. request_body event = Some s \<and> api_json_loads env s = Inl JSONDecodeError)"
    then show b: "parse_body env (request_body event) = Inr (PDict [])"
      by (rule parse_body_empty)
    have "route env p ''POST'' (request_body event) st
            = Inr (response' 400 (Message ''title is required''), st)"
      using assms(3) by (simp add: route_def b create_job_empty)
    then have h: "api_lambda_handler env event st
                    = (response' 400 (Message ''title is required''), st)"
      using assms(1,2,4,5) ne by (simp add: api_lambda_handler_def)
    show "api_statusCode (fst (api_lambda_handler env event st)) = 400"
      "api_body (fst (api_lambda_handler env event st)) = Message ''title is required''"
      "snd (api_lambda_handler env event st) = st"
      by (simp_all add: h response'_def)
  }
  fix s e
  assume a: "request_body event = Some s \<and> s \<noteq> [] \<and> api_json_loads env s = Inl e
                \<and> e \<noteq> JSONDecodeError"
  then have "parse_body env (request_body event) = Inl e"
    using parse_body_raises [of s env e] by simp
  then have "route env p ''POST'' (request_body event) st = Inl e"
    using assms(3) by (simp add: route_def)
  then have h: "api_lambda_handler env event st = (response' 500 (InternalError e), st)"
    using assms(1,2,4,5) ne by (simp add: api_lambda_handler_def)
  show "api_statusCode (fst (api_lambda_handler env event st)) = 500"
    "api_body (fst (api_lambda_handler env event st)) = InternalError e"
    "snd (api_lambda_handler env event st) = st"
    by (simp_all add: h response'_def)
qed

theorem create_job_without_body_witness:
  "api_statusCode (fst (api_lambda_handler demo_api_env
       \<lparr>path = Some ''/jobs'', resource = None, httpMethod = Some ''post'',
        request_body = Some ''{title: ''\<rparr>
       \<lparr>api_job_table = [], api_candidate_table = [], api_uuid_calls = 0\<rparr>)) = 400
   \<and> api_body (fst (api_lambda_handler demo_api_env
       \<lparr>path = Some ''/jobs'', resource = None, httpMethod = Some ''post'', request_body = None\<rparr>
       \<lparr>api_job_table = [], api_candidate_table = [], api_uuid_calls = 0\<rparr>))
       = Message ''title is required''
   \<and> api_statusCode (fst (api_lambda_handler demo_api_env
       \<lparr>path = Some ''/jobs'', resource = None, httpMethod = Some ''post'',
        request_body = Some deep_brackets\<rparr>
       \<lparr>api_job_table = [], api_candidate_table = [], api_uuid_calls = 0\<rparr>)) = 500"
proof -
  let ?st = "\<lparr>api_job_table = [], api_candidate_table = [], api_uuid_calls = 0\<rparr>"
  let ?e1 = "\<lparr>path = Some ''/jobs'', resource = None, httpMethod = Some ''post'',
        request_body = Some ''{title: ''\<rparr>"
  let ?e2 = "\<lparr>path = Some ''/jobs'', resource = None, httpMethod = Some ''post'',
        request_body = None\<rparr>"
  let ?e3 = "\<lparr>path = Some ''/jobs'', resource = None, httpMethod = Some ''post'',
        request_body = Some deep_brackets\<rparr>"
  have a: "api_tables_configured demo_api_env" "startswith ''/jobs'' ''/jobs''"
    "upper ''post'' = ''POST''" "api_json_loads demo_api_env ''{title: '' = Inl JSONDecodeError"
    using demo_api_facts by simp_all
  have 1: "api_statusCode (fst (api_lambda_handler demo_api_env ?e1 ?st)) = 400"
    using create_job_without_body [of demo_api_env ?e1 "''/jobs''" "''post''" ?st] a by simp
  have 2: "api_body (fst (api_lambda_handler demo_api_env ?e2 ?st)) = Message ''title is required''"
    using create_job_without_body [of demo_api_env ?e2 "''/jobs''" "''post''" ?st] a by simp
  have 3: "api_statusCode (fst (api_lambda_handler demo_api_env ?e3 ?st)) = 500"
    using create_job_without_body [of demo_api_env ?e3 "''/jobs''" "''post''" ?st] a
      demo_api_deep deep_brackets_facts(1) by simp
  from 1 2 3 show ?thesis by (intro conjI)
qed

end
